theory Spec2Isabelle
  imports Complex_Main
begin

section \<open>QuantEngine numerical core: a shallow embedding\<close>

text \<open>
  The TypeScript sources under \<^verbatim>\<open>src/core\<close> and \<^verbatim>\<open>src/utils/math.ts\<close> compute with
  the JavaScript type \<^verbatim>\<open>number\<close>, IEEE 754 binary64. A \<open>number\<close> of the embedding is a
  real or one of the special values; \<^verbatim>\<open>-0\<close> is identified with \<^verbatim>\<open>0\<close>. Samples are
  lists of finite reals, as the validated \<^verbatim>\<open>Sample\<close> of the system is.

  Two layers of arithmetic are used.
  \<^item> The operators \<open>fadd\<close>, \<open>fsub\<close>, \<open>fmul\<close>, \<open>fdiv\<close>, \<open>fsqrt\<close> round every result to
    binary64 (round to nearest, ties to even, with overflow and subnormal numbers). The
    quantile, VaR and CVaR, the golden-section search, the Shapiro-Wilk statistic, the
    Jarque-Bera statistic and the special functions under it are embedded with them: what
    these functions return on a given input depends on the rounding.
  \<^item> The operators \<open>jadd\<close>, \<open>jsub\<close>, \<open>jmul\<close>, \<open>jdiv\<close> are exact on finite operands. The
    Welford recurrence and the moments, whose specification is stated over exact real
    arithmetic, the tail indices and the Kolmogorov-Smirnov and Anderson-Darling tests are
    embedded with them.
  ECMAScript leaves the accuracy of \<^verbatim>\<open>Math.exp\<close>, \<^verbatim>\<open>Math.log\<close> and \<^verbatim>\<open>Math.sin\<close> to the
  implementation, so these have no rounded counterpart here: \<open>jexp\<close>, \<open>jlog\<close> and \<open>jsin\<close>
  are the exact functions with the special values the standard fixes. \<^verbatim>\<open>Math.pow(x, 2)\<close>
  is the rounded product \<open>x * x\<close>.
\<close>

subsection \<open>JavaScript numbers with their special values\<close>

datatype number = Num real | PosInf | NegInf | NaN

definition inf_of :: "real \<Rightarrow> number" where
  \<comment> \<open>the infinity carrying the sign of \<open>x\<close>; \<open>NaN\<close> for \<open>x = 0\<close> (as in \<open>0/0\<close>, \<open>0 * Infinity\<close>)\<close>
  "inf_of x = (if 0 < x then PosInf else if x < 0 then NegInf else NaN)"

fun jneg :: "number \<Rightarrow> number" where
  "jneg (Num x) = Num (- x)"
| "jneg PosInf = NegInf"
| "jneg NegInf = PosInf"
| "jneg NaN = NaN"

fun jadd :: "number \<Rightarrow> number \<Rightarrow> number" where
  "jadd (Num x) (Num y) = Num (x + y)"
| "jadd NaN _ = NaN"
| "jadd _ NaN = NaN"
| "jadd PosInf NegInf = NaN"
| "jadd NegInf PosInf = NaN"
| "jadd PosInf _ = PosInf"
| "jadd _ PosInf = PosInf"
| "jadd NegInf _ = NegInf"
| "jadd _ NegInf = NegInf"

definition jsub :: "number \<Rightarrow> number \<Rightarrow> number" where
  "jsub a b = jadd a (jneg b)"

fun jmul :: "number \<Rightarrow> number \<Rightarrow> number" where
  "jmul (Num x) (Num y) = Num (x * y)"
| "jmul NaN _ = NaN"
| "jmul _ NaN = NaN"
| "jmul PosInf (Num y) = inf_of y"
| "jmul (Num x) PosInf = inf_of x"
| "jmul NegInf (Num y) = inf_of (- y)"
| "jmul (Num x) NegInf = inf_of (- x)"
| "jmul PosInf PosInf = PosInf"
| "jmul NegInf NegInf = PosInf"
| "jmul PosInf NegInf = NegInf"
| "jmul NegInf PosInf = NegInf"

fun jdiv :: "number \<Rightarrow> number \<Rightarrow> number" where
  "jdiv (Num x) (Num y) = (if y = 0 then inf_of x else Num (x / y))"
| "jdiv NaN _ = NaN"
| "jdiv _ NaN = NaN"
| "jdiv (Num x) _ = Num 0"
| "jdiv PosInf (Num y) = (if 0 \<le> y then PosInf else NegInf)"
| "jdiv NegInf (Num y) = (if 0 \<le> y then NegInf else PosInf)"
| "jdiv _ _ = NaN"

fun jexp :: "number \<Rightarrow> number" where
  "jexp (Num x) = Num (exp x)"
| "jexp PosInf = PosInf"
| "jexp NegInf = Num 0"
| "jexp NaN = NaN"

fun jlog :: "number \<Rightarrow> number" where
  "jlog (Num x) = (if x < 0 then NaN else if x = 0 then NegInf else Num (ln x))"
| "jlog PosInf = PosInf"
| "jlog NegInf = NaN"
| "jlog NaN = NaN"

fun jsqrt :: "number \<Rightarrow> number" where
  "jsqrt (Num x) = (if x < 0 then NaN else Num (sqrt x))"
| "jsqrt PosInf = PosInf"
| "jsqrt NegInf = NaN"
| "jsqrt NaN = NaN"

fun jabs :: "number \<Rightarrow> number" where
  "jabs (Num x) = Num \<bar>x\<bar>"
| "jabs PosInf = PosInf"
| "jabs NegInf = PosInf"
| "jabs NaN = NaN"

text \<open>Comparisons: every comparison with \<open>NaN\<close> is false.\<close>

fun jlt :: "number \<Rightarrow> number \<Rightarrow> bool" where
  "jlt (Num x) (Num y) = (x < y)"
| "jlt NaN _ = False"
| "jlt _ NaN = False"
| "jlt _ NegInf = False"
| "jlt PosInf _ = False"
| "jlt _ _ = True"

fun jle :: "number \<Rightarrow> number \<Rightarrow> bool" where
  "jle (Num x) (Num y) = (x \<le> y)"
| "jle NaN _ = False"
| "jle _ NaN = False"
| "jle NegInf _ = True"
| "jle _ PosInf = True"
| "jle _ _ = False"

definition jgt :: "number \<Rightarrow> number \<Rightarrow> bool" where
  "jgt a b = jlt b a"

definition jge :: "number \<Rightarrow> number \<Rightarrow> bool" where
  "jge a b = jle b a"

text \<open>\<^verbatim>\<open>Math.max\<close> and \<^verbatim>\<open>Math.min\<close> return \<open>NaN\<close> as soon as one argument is \<open>NaN\<close>.\<close>

definition jmax :: "number \<Rightarrow> number \<Rightarrow> number" where
  "jmax a b = (if a = NaN \<or> b = NaN then NaN else if jlt a b then b else a)"

definition jmin :: "number \<Rightarrow> number \<Rightarrow> number" where
  "jmin a b = (if a = NaN \<or> b = NaN then NaN else if jlt b a then b else a)"

text \<open>
  Reading \<^verbatim>\<open>arr[i]\<close>: out of range JavaScript yields \<^verbatim>\<open>undefined\<close>, which every
  arithmetic operation converts to \<open>NaN\<close>.
\<close>

definition arr_get :: "real list \<Rightarrow> int \<Rightarrow> number" where
  "arr_get arr i = (if 0 \<le> i \<and> i < int (length arr) then Num (arr ! nat i) else NaN)"


fun jsin :: "number \<Rightarrow> number" where
  "jsin (Num x) = Num (sin x)"
| "jsin v = NaN"


subsection \<open>IEEE 754 binary64 rounding\<close>

text \<open>
  \<open>round_even y\<close> is the integer nearest to \<open>y\<close>, the even one of the two at a tie.
  \<open>fl x\<close> is the binary64 value of the real \<open>x\<close> under round-to-nearest-even: the
  significand has 53 bits, the least exponent of the last bit is \<open>-1074\<close> (subnormal
  numbers included), and a rounded magnitude of \<open>2^1024\<close> or more overflows to the infinity
  of the sign of \<open>x\<close>.
\<close>

definition round_even :: "real \<Rightarrow> int" where
  "round_even y =
     (let f = \<lfloor>y\<rfloor>; d = y - real_of_int f
      in if d < 1 / 2 then f else if 1 / 2 < d then f + 1 else if even f then f else f + 1)"

definition fl :: "real \<Rightarrow> number" where
  "fl x =
     (if x = 0 then Num 0
      else
        let e = max (\<lfloor>log 2 \<bar>x\<bar>\<rfloor> - 52) (- 1074);
            r = real_of_int (round_even (x / 2 powr real_of_int e)) * 2 powr real_of_int e
        in if 2 ^ 1024 \<le> \<bar>r\<bar> then inf_of x else Num r)"

text \<open>
  The arithmetic operators and \<^verbatim>\<open>Math.sqrt\<close> are correctly rounded: the exact result on
  finite operands, then \<open>fl\<close>; the special values are those of the exact operation.
\<close>

definition rnd :: "number \<Rightarrow> number" where
  "rnd v = (case v of Num x \<Rightarrow> fl x | _ \<Rightarrow> v)"

definition fadd :: "number \<Rightarrow> number \<Rightarrow> number" where
  "fadd a b = rnd (jadd a b)"

definition fsub :: "number \<Rightarrow> number \<Rightarrow> number" where
  "fsub a b = rnd (jsub a b)"

definition fmul :: "number \<Rightarrow> number \<Rightarrow> number" where
  "fmul a b = rnd (jmul a b)"

definition fdiv :: "number \<Rightarrow> number \<Rightarrow> number" where
  "fdiv a b = rnd (jdiv a b)"

definition fsqrt :: "number \<Rightarrow> number" where
  "fsqrt a = rnd (jsqrt a)"

text \<open>A decimal literal of the source denotes the double nearest to it.\<close>

definition dbl :: "real \<Rightarrow> real" where
  "dbl x = (case fl x of Num r \<Rightarrow> r | _ \<Rightarrow> 0)"

text \<open>\<^verbatim>\<open>Math.floor\<close> and \<^verbatim>\<open>Math.ceil\<close> are exact.\<close>

fun jfloor :: "number \<Rightarrow> number" where
  "jfloor (Num x) = Num (real_of_int \<lfloor>x\<rfloor>)"
| "jfloor v = v"

fun jceil :: "number \<Rightarrow> number" where
  "jceil (Num x) = Num (real_of_int \<lceil>x\<rceil>)"
| "jceil v = v"

text \<open>
  \<^verbatim>\<open>arr[i]\<close> for a number \<open>i\<close>: an element only when \<open>i\<close> is an integer within range.
\<close>

definition arr_at :: "real list \<Rightarrow> number \<Rightarrow> number" where
  "arr_at arr i =
     (case i of
        Num v \<Rightarrow> if v = real_of_int \<lfloor>v\<rfloor> then arr_get arr \<lfloor>v\<rfloor> else NaN
      | _ \<Rightarrow> NaN)"


subsection \<open>\<^verbatim>\<open>utils/math.ts\<close>: the empirical quantile\<close>

definition quantile :: "real list \<Rightarrow> number \<Rightarrow> number" where
  "quantile sortedArr p =
     (if length sortedArr = 0 then NaN
      else if jle p (Num 0) then arr_get sortedArr 0
      else if jge p (Num 1) then arr_get sortedArr (int (length sortedArr) - 1)
      else
        let index = fmul p (Num (real (length sortedArr) - 1));
            lower = jfloor index;
            upper = jceil index;
            weight = fsub index lower
        in fadd (fmul (arr_at sortedArr lower) (fsub (Num 1) weight))
                (fmul (arr_at sortedArr upper) weight))"

subsection \<open>\<^verbatim>\<open>core/tails.ts\<close>: VaR and CVaR\<close>

definition computeVaR :: "real list \<Rightarrow> number \<Rightarrow> number" where
  "computeVaR sorted_arr confidence =
     (let alpha = fsub (Num 1) confidence in jneg (quantile sorted_arr alpha))"

text \<open>
  The accumulation loop \<^verbatim>\<open>for (i = 0; i < varIndex; i++) sum += sorted[i]\<close>. The counter
  is a number like any other: beyond \<open>2^53\<close> the increment no longer changes it, and
  against an infinite \<open>varIndex\<close> the loop has no end. \<open>None\<close> is a run that never leaves
  the loop.
\<close>

partial_function (option) cvar_loop ::
  "real list \<Rightarrow> number \<Rightarrow> number \<Rightarrow> number \<Rightarrow> number option" where
  "cvar_loop sorted_arr varIndex i s =
     (if jlt i varIndex
      then cvar_loop sorted_arr varIndex (fadd i (Num 1)) (fadd s (arr_at sorted_arr i))
      else Some s)"

definition computeCVaR :: "real list \<Rightarrow> number \<Rightarrow> number option" where
  "computeCVaR sorted_arr confidence =
     (let n = length sorted_arr;
          alpha = fsub (Num 1) confidence;
          varIndex = jfloor (fmul alpha (Num (real n)))
      in if varIndex = Num 0 then Some (jneg (arr_get sorted_arr 0))
         else case cvar_loop sorted_arr varIndex (Num 0) (Num 0) of
                None \<Rightarrow> None
              | Some s \<Rightarrow> Some (fdiv (jneg s) varIndex))"

subsection \<open>\<^verbatim>\<open>core/tails.ts\<close>: the Hill tail index and the tail metrics\<close>

text \<open>
  The first lines of \<^verbatim>\<open>computeHillIndex\<close> and \<^verbatim>\<open>computeLeftTailIndex\<close> are the same:
  \<^verbatim>\<open>k = Math.max(Math.floor(Math.sqrt(n)), Math.floor(0.05 * n), 20)\<close> and
  \<^verbatim>\<open>kActual = Math.min(k, Math.floor(n * 0.2))\<close>.
\<close>

definition tail_count :: "nat \<Rightarrow> int" where
  "tail_count n =
     (let k = max (max \<lfloor>sqrt (real n)\<rfloor> \<lfloor>0.05 * real n\<rfloor>) 20
      in min k \<lfloor>real n * 0.2\<rfloor>)"

text \<open>\<^verbatim>\<open>for (i = n - kActual; i < n; i++) sum += Math.log(sorted[i] / threshold)\<close>\<close>

function hill_loop :: "real list \<Rightarrow> number \<Rightarrow> int \<Rightarrow> int \<Rightarrow> number \<Rightarrow> number" where
  "hill_loop sorted_arr threshold n i s =
     (if i < n
      then hill_loop sorted_arr threshold n (i + 1)
             (jadd s (jlog (jdiv (arr_get sorted_arr i) threshold)))
      else s)"
  by pat_completeness auto
termination
  by (relation "measure (\<lambda>(sorted_arr, threshold, n, i, s). nat (n - i))") auto

declare hill_loop.simps [simp del]

definition computeHillIndex :: "real list \<Rightarrow> number" where
  "computeHillIndex sorted_arr =
     (let n = length sorted_arr;
          kActual = tail_count n
      in if kActual < 5 then NaN
         else
           let threshold = arr_get sorted_arr (int n - kActual);
               s = hill_loop sorted_arr threshold (int n) (int n - kActual) (Num 0);
               gamma = jdiv s (Num (real_of_int kActual))
           in gamma)"

function left_tail_loop :: "real list \<Rightarrow> number \<Rightarrow> int \<Rightarrow> int \<Rightarrow> number \<Rightarrow> number" where
  "left_tail_loop sorted_arr threshold kActual i s =
     (if i < kActual
      then let val = jneg (arr_get sorted_arr i)
           in left_tail_loop sorted_arr threshold kActual (i + 1)
                (if jgt val (Num 0) then jadd s (jlog (jdiv val threshold)) else s)
      else s)"
  by pat_completeness auto
termination
  by (relation "measure (\<lambda>(sorted_arr, threshold, kActual, i, s). nat (kActual - i))") auto

declare left_tail_loop.simps [simp del]

definition computeLeftTailIndex :: "real list \<Rightarrow> number" where
  "computeLeftTailIndex sorted_arr =
     (let n = length sorted_arr;
          kActual = tail_count n
      in if kActual < 5 then NaN
         else
           let threshold = jneg (arr_get sorted_arr (kActual - 1));
               s = left_tail_loop sorted_arr threshold kActual 0 (Num 0)
           in jdiv s (Num (real_of_int kActual)))"

text \<open>
  Record fields carry a prefix (\<open>tm_\<close>, \<open>ss_\<close>, \<open>st_\<close>, \<open>wf_\<close>), since the sources use the
  bare names for parameters and local variables as well.
  \<^verbatim>\<open>[...data].sort((a, b) => a - b)\<close> is the ascending sort of a copy.
\<close>

record TailMetrics =
  tm_var95 :: number
  tm_var99 :: number
  tm_cvar95 :: number
  tm_cvar99 :: number
  tm_hillIndex :: number

text \<open>A decimal literal of the source, such as \<^verbatim>\<open>0.95\<close>, is the double \<open>fl 0.95\<close>.\<close>

definition computeTailMetrics :: "real list \<Rightarrow> TailMetrics option" where
  "computeTailMetrics data =
     (let sorted_arr = sort data;
          var95 = computeVaR sorted_arr (fl 0.95);
          var99 = computeVaR sorted_arr (fl 0.99)
      in case computeCVaR sorted_arr (fl 0.95) of
           None \<Rightarrow> None
         | Some cvar95 \<Rightarrow>
             (case computeCVaR sorted_arr (fl 0.99) of
                None \<Rightarrow> None
              | Some cvar99 \<Rightarrow>
                  let hillIndex = computeHillIndex sorted_arr
                  in Some \<lparr> tm_var95 = var95, tm_var99 = var99, tm_cvar95 = cvar95,
                            tm_cvar99 = cvar99, tm_hillIndex = hillIndex \<rparr>))"

subsection \<open>\<^verbatim>\<open>core/summaryStats.ts\<close>\<close>


record WelfordResult =
  wf_mean :: real
  wf_variance :: real
  wf_m2 :: real

text \<open>One pass of the loop body of \<^verbatim>\<open>welfordAlgorithm\<close> on the state \<open>(n, mean, m2)\<close>.\<close>

fun welford_step :: "real \<Rightarrow> nat \<times> real \<times> real \<Rightarrow> nat \<times> real \<times> real" where
  "welford_step x (n, mean, m2) =
     (let n1 = n + 1;
          delta = x - mean;
          mean1 = mean + delta / real n1;
          delta2 = x - mean1;
          m21 = m2 + delta * delta2
      in (n1, mean1, m21))"

definition welfordAlgorithm :: "real list \<Rightarrow> WelfordResult" where
  "welfordAlgorithm data =
     (case fold welford_step data (0, 0, 0) of
        (n, mean, m2) \<Rightarrow>
          let variance = (if n > 1 then m2 / (real n - 1) else 0)
          in \<lparr> wf_mean = mean, wf_variance = variance, wf_m2 = m2 \<rparr>)"

definition computeSkewness :: "real list \<Rightarrow> real \<Rightarrow> real \<Rightarrow> real" where
  "computeSkewness data mean stdDev =
     (let n = length data
      in if n < 3 \<or> stdDev = 0 then 0
         else
           let m3 = fold (\<lambda>x m3. let z = (x - mean) / stdDev in m3 + z * z * z) data 0;
               skew = m3 / real n;
               correction = sqrt (real n * (real n - 1)) / (real n - 2)
           in skew * correction)"

definition computeKurtosis :: "real list \<Rightarrow> real \<Rightarrow> real \<Rightarrow> real" where
  "computeKurtosis data mean stdDev =
     (let n = length data
      in if n < 4 \<or> stdDev = 0 then 0
         else
           let m4 = fold (\<lambda>x m4. let z = (x - mean) / stdDev in m4 + z * z * z * z) data 0;
               kurt = m4 / real n;
               correction1 = (real n - 1) / ((real n - 2) * (real n - 3));
               correction2 = (real n + 1) * kurt - 3 * (real n - 1)
           in correction1 * correction2)"

record SummaryStats =
  ss_count :: nat
  ss_mean :: number
  ss_variance :: number
  ss_stdDev :: number
  ss_median :: number
  ss_skewness :: number
  ss_kurtosis :: number
  ss_min :: number
  ss_max :: number
  ss_p5 :: number
  ss_p25 :: number
  ss_p50 :: number
  ss_p75 :: number
  ss_p95 :: number

text \<open>
  \<^verbatim>\<open>throw new Error('Cannot compute statistics on empty data')\<close> is the only failure of
  \<^verbatim>\<open>computeSummaryStats\<close>. After it \<open>n \<ge> 1\<close>, the variance of the recurrence is never
  negative (\<open>welford_variance_nonneg\<close> below), and the divisions of \<^verbatim>\<open>computeSkewness\<close> and
  \<^verbatim>\<open>computeKurtosis\<close> are guarded by \<open>n < 3\<close>, \<open>n < 4\<close> and \<open>stdDev = 0\<close>: the moments stay
  in the finite reals. The median and the percentiles are the rounded \<open>quantile\<close> at the
  doubles of the literals \<^verbatim>\<open>0.5\<close>, \<^verbatim>\<open>0.05\<close>, \<^verbatim>\<open>0.25\<close>, \<^verbatim>\<open>0.75\<close>, \<^verbatim>\<open>0.95\<close>.
\<close>

datatype error = Error string

definition computeSummaryStats :: "real list \<Rightarrow> error + SummaryStats" where
  "computeSummaryStats data =
     (let n = length data
      in if n = 0 then Inl (Error ''Cannot compute statistics on empty data'')
         else
           let welford = welfordAlgorithm data;
               mean = wf_mean welford;
               variance = wf_variance welford;
               stdDev = sqrt variance;
               sorted_arr = sort data;
               median = quantile sorted_arr (fl 0.5);
               min_v = arr_get sorted_arr 0;
               max_v = arr_get sorted_arr (int n - 1);
               p5 = quantile sorted_arr (fl 0.05);
               p25 = quantile sorted_arr (fl 0.25);
               p50 = median;
               p75 = quantile sorted_arr (fl 0.75);
               p95 = quantile sorted_arr (fl 0.95);
               skewness = computeSkewness data mean stdDev;
               kurtosis = computeKurtosis data mean stdDev
           in Inr \<lparr> ss_count = n, ss_mean = Num mean, ss_variance = Num variance,
                    ss_stdDev = Num stdDev, ss_median = median, ss_skewness = Num skewness,
                    ss_kurtosis = Num kurtosis, ss_min = min_v, ss_max = max_v, ss_p5 = p5,
                    ss_p25 = p25, ss_p50 = p50, ss_p75 = p75, ss_p95 = p95 \<rparr>)"

text \<open>
  The naive two-pass definitions the single-pass recurrence is compared with: the mean
  is the sum over the count, the sample variance the sum of squared deviations from that
  mean over \<open>n - 1\<close> (and 0 for fewer than two points).
\<close>

definition two_pass_mean :: "real list \<Rightarrow> real" where
  "two_pass_mean data = sum_list data / real (length data)"

definition two_pass_variance :: "real list \<Rightarrow> real" where
  "two_pass_variance data =
     (if length data > 1
      then sum_list (map (\<lambda>x. (x - two_pass_mean data)\<^sup>2) data) / (real (length data) - 1)
      else 0)"

subsection \<open>\<^verbatim>\<open>utils/math.ts\<close>: golden-section search\<close>

text \<open>
  The \<^verbatim>\<open>while\<close> loop on the state \<open>(a, b, x1, x2, f1, f2)\<close>, every operation rounded.
  Nothing bounds its number of iterations in the source, so the loop is a partial function:
  \<open>None\<close> is a run that never leaves the loop. In the first branch the source assigns
  \<^verbatim>\<open>b = x2; x2 = x1; f2 = f1; x1 = a + resphi * (b - a)\<close> (with the new \<open>b\<close>), in the second
  \<^verbatim>\<open>a = x1; x1 = x2; f1 = f2; x2 = b - resphi * (b - a)\<close> (with the new \<open>a\<close>).
\<close>

partial_function (option) gss_loop ::
  "(number \<Rightarrow> number) \<Rightarrow> number \<Rightarrow> number \<Rightarrow> number \<Rightarrow> number \<Rightarrow> number \<Rightarrow> number \<Rightarrow> number
     \<Rightarrow> number \<Rightarrow> number option" where
  "gss_loop f resphi tol a b x1 x2 f1 f2 =
     (if jgt (jabs (fsub b a)) tol then
        (if jlt f1 f2
         then gss_loop f resphi tol a x2 (fadd a (fmul resphi (fsub x2 a))) x1
                (f (fadd a (fmul resphi (fsub x2 a)))) f1
         else gss_loop f resphi tol x1 b x2 (fsub b (fmul resphi (fsub b x1))) f2
                (f (fsub b (fmul resphi (fsub b x1)))))
      else Some (fdiv (fadd a b) (Num 2)))"

definition goldenSectionSearch ::
  "(number \<Rightarrow> number) \<Rightarrow> number \<Rightarrow> number \<Rightarrow> number \<Rightarrow> number option" where
  "goldenSectionSearch f a b tol =
     (let phi = fdiv (fadd (Num 1) (fsqrt (Num 5))) (Num 2);
          resphi = fsub (Num 2) phi;
          x1 = fadd a (fmul resphi (fsub b a));
          x2 = fsub b (fmul resphi (fsub b a));
          f1 = f x1;
          f2 = f x2
      in gss_loop f resphi tol a b x1 x2 f1 f2)"


subsection \<open>\<^verbatim>\<open>utils/math.ts\<close>: special functions\<close>


text \<open>
  \<^verbatim>\<open>erf\<close>, the Abramowitz-Stegun approximation. \<^verbatim>\<open>-x * x\<close> is \<open>(-x) * x\<close>, and the
  product \<^verbatim>\<open>(...) * t * Math.exp(...)\<close> associates to the left.
\<close>

definition erf :: "number \<Rightarrow> number" where
  "erf x0 =
     (let sign = (if jge x0 (Num 0) then 1 else - 1);
          x = jabs x0;
          a1 = 0.254829592;
          a2 = - 0.284496736;
          a3 = 1.421413741;
          a4 = - 1.453152027;
          a5 = 1.061405429;
          p = 0.3275911;
          t = jdiv (Num 1) (jadd (Num 1) (jmul (Num p) x));
          poly = jadd (jmul (jadd (jmul (jadd (jmul (jadd (jmul (Num a5) t) (Num a4)) t)
                   (Num a3)) t) (Num a2)) t) (Num a1);
          y = jsub (Num 1) (jmul (jmul poly t) (jexp (jmul (jneg x) x)))
      in jmul (Num sign) y)"

definition normCDF :: "number \<Rightarrow> number" where
  "normCDF x = jmul (Num 0.5) (jadd (Num 1) (erf (jdiv x (Num (sqrt 2)))))"

text \<open>
  \<^verbatim>\<open>Math.PI\<close> is the double nearest to \<open>\<pi>\<close>. The coefficients of \<^verbatim>\<open>logGamma\<close> are the
  doubles of its decimal literals.
\<close>

definition math_PI :: real where
  "math_PI = 884279719003555 / 2 ^ 48"

definition lanczos_coef :: "real list" where
  "lanczos_coef =
     map dbl
       [0.99999999999980993,
        676.5203681218851,
        - 1259.1392167224028,
        771.32342877765313,
        - 176.61502916214059,
        12.507343278686905,
        - 0.13857109526572012,
        9.9843695780195716 / 10 ^ 6,
        1.5056327351493116 / 10 ^ 7]"

text \<open>
  \<^verbatim>\<open>logGamma\<close> calls itself on \<open>1 - x\<close> when \<open>0 < x < 0.5\<close>; the rounded \<open>1 - x\<close> is at
  least \<open>0.5\<close>, so the recursion has depth one.
\<close>

function logGamma :: "number \<Rightarrow> number" where
  "logGamma x0 =
     (if jle x0 (Num 0) then NaN
      else if jlt x0 (Num 0.5)
      then fsub (jlog (fdiv (Num math_PI) (jsin (fmul (Num math_PI) x0))))
             (logGamma (fsub (Num 1) x0))
      else
        let x = fsub x0 (Num 1);
            a = fold (\<lambda>i a. fadd a (fdiv (Num (lanczos_coef ! i)) (fadd x (Num (real i)))))
                  [1 ..< 9] (Num (lanczos_coef ! 0));
            t = fadd (fadd x (Num 7)) (Num 0.5)
        in fsub (fadd (fadd (jlog (fsqrt (fmul (Num 2) (Num math_PI)))) (jlog a))
                  (fmul (fadd x (Num 0.5)) (jlog t)))
             t)"
  by pat_completeness auto
termination
proof (relation "measure (\<lambda>v. if jlt v (Num 0.5) \<and> \<not> jle v (Num 0) then 1 else 0)")
  show "wf (measure (\<lambda>v. if jlt v (Num 0.5) \<and> \<not> jle v (Num 0) then 1 else (0 :: nat)))"
    by simp
next
  fix x0 :: number
  assume a: "\<not> jle x0 (Num 0)" "jlt x0 (Num 0.5)"
  then obtain x where x0: "x0 = Num x" and x: "0 < x" "x < 1 / 2"
    by (cases x0) auto
  define y where "y = 1 - x"
  have y: "1 / 2 < y" "y < 1" using x by (simp_all add: y_def)
  have "2 powr real_of_int (- 1) \<le> \<bar>y\<bar>" "\<bar>y\<bar> < 2 powr real_of_int (- 1 + 1)"
    using y by (simp_all add: powr_minus)
  then have "\<lfloor>log 2 \<bar>y\<bar>\<rfloor> = - 1"
    using floor_log_eq_powr_iff[of "\<bar>y\<bar>" 2 "- 1"] y by simp
  then have e: "max (\<lfloor>log 2 \<bar>y\<bar>\<rfloor> - 52) (- 1074) = - int 53" by simp
  have p: "2 powr real_of_int (- int 53) = 1 / 2 ^ 53"
    by (simp add: powr_minus powr_realpow inverse_eq_divide)
  define m where "m = round_even (y * 2 ^ 53)"
  have lo: "2 ^ 52 \<le> y * 2 ^ 53" and hi: "y * 2 ^ 53 < 2 ^ 53" using y by simp_all
  have f1: "2 ^ 52 \<le> \<lfloor>y * 2 ^ 53\<rfloor>" using lo by (simp add: le_floor_iff)
  have f2: "\<lfloor>y * 2 ^ 53\<rfloor> < 2 ^ 53" using hi by (simp add: floor_less_iff)
  have m1: "2 ^ 52 \<le> m" and m2: "m \<le> 2 ^ 53"
    using f1 f2 by (auto simp: m_def round_even_def Let_def)
  have r1: "1 / 2 \<le> real_of_int m / 2 ^ 53"
  proof -
    have "(2 :: real) ^ 52 \<le> real_of_int m" using m1 by (metis numeral_power_le_of_int_cancel_iff)
    then show ?thesis by (simp add: field_simps)
  qed
  have r2: "real_of_int m / 2 ^ 53 \<le> 1"
  proof -
    have "real_of_int m \<le> 2 ^ 53" using m2 by (metis of_int_le_numeral_power_cancel_iff)
    then show ?thesis by (simp add: field_simps)
  qed
  have big: "(1 :: real) < 2 ^ 1024" by (rule one_less_power) simp_all
  have fin: "\<not> 2 ^ 1024 \<le> \<bar>real_of_int m / 2 ^ 53\<bar>" using r1 r2 big by linarith
  have y0: "y \<noteq> 0" using y by simp
  have "fl y = Num (real_of_int m / 2 ^ 53)"
    unfolding fl_def Let_def e p using y0 fin by (simp add: m_def del: power_numeral)
  then have "fsub (Num 1) x0 = Num (real_of_int m / 2 ^ 53)"
    by (simp add: fsub_def jsub_def rnd_def x0 y_def)
  then show "(fsub (Num 1) x0, x0)
               \<in> measure (\<lambda>v. if jlt v (Num 0.5) \<and> \<not> jle v (Num 0) then 1 else 0)"
    using a r1 by simp
qed

declare logGamma.simps [simp del]

text \<open>
  The continued-fraction loop of \<^verbatim>\<open>betaInc\<close> on the state \<open>(f, c, d)\<close>, for
  \<^verbatim>\<open>i = 1 .. MAXIT\<close> with its early \<^verbatim>\<open>break\<close>.
\<close>

function betaInc_loop ::
  "number \<Rightarrow> number \<Rightarrow> number \<Rightarrow> nat \<Rightarrow> number \<Rightarrow> number \<Rightarrow> number \<Rightarrow> number" where
  "betaInc_loop x a b i f c d =
     (if i \<le> 100 then
        let m = Num (real i);
            aa = fdiv (fmul (fmul m (fsub b m)) x)
                   (fmul (fsub (fadd a (fmul (Num 2) m)) (Num 1)) (fadd a (fmul (Num 2) m)));
            d1 = fdiv (Num 1) (fadd (Num 1) (fmul aa d));
            c1 = fadd (Num 1) (fdiv aa c);
            f1 = fmul f (fmul d1 c1);
            aa2 = fdiv (fmul (fmul (jneg (fadd a m)) (fadd (fadd a b) m)) x)
                    (fmul (fadd a (fmul (Num 2) m)) (fadd (fadd a (fmul (Num 2) m)) (Num 1)));
            d2 = fdiv (Num 1) (fadd (Num 1) (fmul aa2 d1));
            c2 = fadd (Num 1) (fdiv aa2 c1);
            del = fmul d2 c2;
            f2 = fmul f1 del
        in if jlt (jabs (fsub del (Num 1))) (fl (3 / 10 ^ 7)) then f2
           else betaInc_loop x a b (i + 1) f2 c2 d2
      else f)"
  by pat_completeness auto
termination
  by (relation "measure (\<lambda>(x, a, b, i, f, c, d). 101 - i)") auto

declare betaInc_loop.simps [simp del]

definition betaInc :: "number \<Rightarrow> number \<Rightarrow> number \<Rightarrow> number" where
  "betaInc x a b =
     (if jlt x (Num 0) \<or> jgt x (Num 1) then NaN
      else if x = Num 0 then Num 0
      else if x = Num 1 then Num 1
      else
        let lbeta = fsub (fadd (logGamma a) (logGamma b)) (logGamma (fadd a b));
            front = fdiv (jexp (fsub (fadd (fmul (jlog x) a) (fmul (jlog (fsub (Num 1) x)) b))
                                  lbeta)) a;
            d = fdiv (Num 1) (fsub (Num 1) (fdiv (fmul (fadd a b) x) (fadd a (Num 1))));
            f = betaInc_loop x a b 1 (Num 1) (Num 1) d
        in fmul front f)"

definition chi2CDF :: "number \<Rightarrow> number \<Rightarrow> number" where
  "chi2CDF x df =
     (if jlt x (Num 0) \<or> jle df (Num 0) then NaN
      else if x = Num 0 then Num 0
      else betaInc (fdiv x (fadd x df)) (fdiv x (Num 2)) (fdiv df (Num 2)))"

subsection \<open>\<^verbatim>\<open>core/tests.ts\<close>: the normality tests\<close>

record StatisticalTest =
  st_name :: string
  st_statistic :: number
  st_pValue :: number
  st_rejectNull :: bool
  st_alpha :: number

text \<open>
  \<^verbatim>\<open>jarqueBeraTest\<close> takes the skewness and the kurtosis from its caller. The statistic is
  \<^verbatim>\<open>(n / 6) * (Math.pow(skewness, 2) + Math.pow(kurtosis, 2) / 4)\<close>, and the p-value
  \<^verbatim>\<open>1 - chi2CDF(jb, 2)\<close> is returned as it is.
\<close>

definition jarqueBeraTest :: "real list \<Rightarrow> real \<Rightarrow> real \<Rightarrow> real \<Rightarrow> StatisticalTest" where
  "jarqueBeraTest data skewness kurtosis alpha =
     (let n = length data;
          jb = fmul (fdiv (Num (real n)) (Num 6))
                 (fadd (fmul (Num skewness) (Num skewness))
                       (fdiv (fmul (Num kurtosis) (Num kurtosis)) (Num 4)));
          pValue = fsub (Num 1) (chi2CDF jb (Num 2))
      in \<lparr> st_name = ''Jarque-Bera'', st_statistic = jb, st_pValue = pValue,
           st_rejectNull = jlt pValue (Num alpha), st_alpha = Num alpha \<rparr>)"

text \<open>The series of \<^verbatim>\<open>ksAsymptoticPValue\<close>, \<^verbatim>\<open>k = 1 .. 100\<close> with its early \<^verbatim>\<open>break\<close>.\<close>

function ks_series :: "number \<Rightarrow> nat \<Rightarrow> number \<Rightarrow> number" where
  "ks_series lambda k s =
     (if k \<le> 100 then
        let term = jmul (Num (2 * (- 1) ^ (k - 1)))
                     (jexp (jmul (jmul (Num (- 2 * real k * real k)) lambda) lambda));
            s1 = jadd s term
        in if jlt (jabs term) (Num (1 / 10 ^ 10)) then s1 else ks_series lambda (k + 1) s1
      else s)"
  by pat_completeness auto
termination
  by (relation "measure (\<lambda>(lambda, k, s). 101 - k)") auto

declare ks_series.simps [simp del]

definition ksAsymptoticPValue :: "number \<Rightarrow> nat \<Rightarrow> number" where
  "ksAsymptoticPValue d n =
     (let lambda = jmul (jadd (Num (sqrt (real n) + 0.12)) (jdiv (Num 0.11) (Num (sqrt (real n))))) d;
          s = ks_series lambda 1 (Num 0)
      in jmax (Num 0) (jmin (Num 1) s))"

text \<open>The body of the loop of \<^verbatim>\<open>kolmogorovSmirnovTest\<close> on the state \<open>(dPlus, dMinus)\<close>.\<close>

definition ks_step ::
  "real list \<Rightarrow> nat \<Rightarrow> real \<Rightarrow> real \<Rightarrow> nat \<Rightarrow> number \<times> number \<Rightarrow> number \<times> number" where
  "ks_step sorted_arr n mu sigma i st =
     (case st of (dPlus, dMinus) \<Rightarrow>
        let x = arr_get sorted_arr (int i);
            empiricalCDF = Num ((real i + 1) / real n);
            theoreticalCDF = normCDF (jdiv (jsub x (Num mu)) (Num sigma))
        in (jmax dPlus (jsub empiricalCDF theoreticalCDF),
            jmax dMinus (jsub theoreticalCDF (Num (real i / real n)))))"

definition kolmogorovSmirnovTest :: "real list \<Rightarrow> real \<Rightarrow> real \<Rightarrow> real \<Rightarrow> StatisticalTest" where
  "kolmogorovSmirnovTest data mu sigma alpha =
     (let n = length data;
          sorted_arr = sort data
      in case fold (ks_step sorted_arr n mu sigma) [0 ..< n] (Num 0, Num 0) of
           (dPlus, dMinus) \<Rightarrow>
             let d = jmax dPlus dMinus;
                 pValue = ksAsymptoticPValue d n
             in \<lparr> st_name = ''Kolmogorov-Smirnov'', st_statistic = d, st_pValue = pValue,
                  st_rejectNull = jlt pValue (Num alpha), st_alpha = Num alpha \<rparr>)"

text \<open>The body of the summation loop of \<^verbatim>\<open>andersonDarlingTest\<close>.\<close>

definition ad_step :: "real list \<Rightarrow> real \<Rightarrow> real \<Rightarrow> nat \<Rightarrow> number \<Rightarrow> number" where
  "ad_step sorted_arr mu sigma i s =
     (let x = arr_get sorted_arr (int i);
          z = jdiv (jsub x (Num mu)) (Num sigma);
          phi = normCDF z;
          phi1 = jmax (Num (1 / 10 ^ 10)) (jmin (Num (1 - 1 / 10 ^ 10)) phi);
          phi2 = jmax (Num (1 / 10 ^ 10)) (jmin (Num (1 - 1 / 10 ^ 10)) (jsub (Num 1) phi))
      in jadd s (jmul (Num (2 * (real i + 1) - 1)) (jadd (jlog phi1) (jlog phi2))))"

definition andersonDarlingTest :: "real list \<Rightarrow> real \<Rightarrow> real \<Rightarrow> real \<Rightarrow> StatisticalTest" where
  "andersonDarlingTest data mu sigma alpha =
     (let n = length data;
          sorted_arr = sort data;
          s = fold (ad_step sorted_arr mu sigma) [0 ..< n] (Num 0);
          a2 = jsub (Num (- real n)) (jdiv s (Num (real n)));
          a2Adjusted = jmul a2 (jadd (jadd (Num 1) (jdiv (Num 0.75) (Num (real n))))
                                  (jdiv (Num 2.25) (Num (real n * real n))));
          criticalValue = 0.787;
          rejectNull = jgt a2Adjusted (Num criticalValue);
          pValue0 =
            (if jlt a2Adjusted (Num 0.2) then
               jsub (Num 1) (jexp (jsub (jadd (Num (- 13.436)) (jmul (Num 101.14) a2Adjusted))
                                     (jmul (jmul (Num 223.73) a2Adjusted) a2Adjusted)))
             else if jlt a2Adjusted (Num 0.34) then
               jsub (Num 1) (jexp (jsub (jadd (Num (- 8.318)) (jmul (Num 42.796) a2Adjusted))
                                     (jmul (jmul (Num 59.938) a2Adjusted) a2Adjusted)))
             else if jlt a2Adjusted (Num 0.6) then
               jexp (jsub (jsub (Num 0.9177) (jmul (Num 4.279) a2Adjusted))
                       (jmul (jmul (Num 1.38) a2Adjusted) a2Adjusted))
             else
               jexp (jadd (jsub (Num 1.2937) (jmul (Num 5.709) a2Adjusted))
                       (jmul (jmul (Num 0.0186) a2Adjusted) a2Adjusted)));
          pValue = jmax (Num 0) (jmin (Num 1) pValue0)
      in \<lparr> st_name = ''Anderson-Darling'', st_statistic = a2Adjusted, st_pValue = pValue,
           st_rejectNull = rejectNull, st_alpha = Num alpha \<rparr>)"

definition computeShapiroWilkCoefficient :: "nat \<Rightarrow> nat \<Rightarrow> number" where
  "computeShapiroWilkCoefficient i n = fdiv (Num 1) (fsqrt (Num (real n)))"

text \<open>
  \<^verbatim>\<open>shapiroWilkTest\<close> returns \<^verbatim>\<open>null\<close> outside \<open>3 \<le> n \<le> 5000\<close>. The mean, the sum of
  squares, the numerator and \<open>w\<close> are computed with rounded operations; \<^verbatim>\<open>normCDF\<close> is the
  function the other tests use.
\<close>

definition shapiroWilkTest :: "real list \<Rightarrow> real \<Rightarrow> StatisticalTest option" where
  "shapiroWilkTest data alpha =
     (let n = length data
      in if n < 3 \<or> n > 5000 then None
         else
           let sorted_arr = sort data;
               mean = fdiv (fold (\<lambda>x s. fadd s (Num x)) data (Num 0)) (Num (real n));
               ssTotal = fold (\<lambda>x s. fadd s (fmul (fsub (Num x) mean) (fsub (Num x) mean)))
                           data (Num 0);
               k = n div 2;
               numerator = fold (\<lambda>i numerator.
                                    let ai = computeShapiroWilkCoefficient (i + 1) n
                                    in fadd numerator
                                         (fmul ai (fsub (arr_get sorted_arr (int n - 1 - int i))
                                                        (arr_get sorted_arr (int i)))))
                             [0 ..< k] (Num 0);
               w = fdiv (fmul numerator numerator) ssTotal;
               logW = jlog (fsub (Num 1) w);
               z = fdiv (fsub (jneg logW) (Num 1)) (fsqrt (fdiv (Num 2) (Num (real n))));
               pValue = fsub (Num 1) (normCDF z)
           in Some \<lparr> st_name = ''Shapiro-Wilk'', st_statistic = w,
                     st_pValue = jmax (Num 0) (jmin (Num 1) pValue),
                     st_rejectNull = jlt pValue (Num alpha), st_alpha = Num alpha \<rparr>)"

section \<open>Auxiliary notions used in the proofs\<close>

text \<open>
  The exponent of the last bit of the double nearest to \<open>x\<close>, and the rounded value of
  \<open>x\<close> before the overflow test of \<open>fl\<close>.
\<close>


definition fl_exp :: "real \<Rightarrow> int" where
  "fl_exp x = max (\<lfloor>log 2 \<bar>x\<bar>\<rfloor> - 52) (- 1074)"

definition flr :: "real \<Rightarrow> real" where
  "flr x =
     (if x = 0 then 0
      else real_of_int (round_even (x / 2 powr real_of_int (fl_exp x))) * 2 powr real_of_int (fl_exp x))"

text \<open>
  The unit roundoff of binary64 and half the smallest subnormal number: the rounding of
  \<open>x\<close> is off by at most \<open>\<bar>x\<bar> * u53 + eta\<close>.
\<close>

definition u53 :: real where
  "u53 = 1 / 2 ^ 53"

definition eta :: real where
  "eta = 1 / 2 ^ 1075"

text \<open>
  The linear interpolation of \<^verbatim>\<open>quantile\<close> at the fractional index \<open>t\<close> in exact
  arithmetic; the same interpolation between \<open>a\<close> and \<open>b\<close> at the weight \<open>w0\<close> with the
  roundings of the code, overflow apart; and the distance \<open>16 (M u53 + eta)\<close> within which
  the two stay on elements of magnitude at most \<open>M\<close>.
\<close>

definition qinterp :: "real list \<Rightarrow> real \<Rightarrow> real" where
  "qinterp xs t =
     xs ! nat \<lfloor>t\<rfloor> * (1 - (t - real_of_int \<lfloor>t\<rfloor>)) + xs ! nat \<lceil>t\<rceil> * (t - real_of_int \<lfloor>t\<rfloor>)"

definition qround :: "real \<Rightarrow> real \<Rightarrow> real \<Rightarrow> real" where
  "qround a b w0 = flr (flr (a * flr (1 - flr w0)) + flr (b * flr w0))"

definition quantile_tol :: "real \<Rightarrow> real" where
  "quantile_tol M = M / 2 ^ 49 + 1 / 2 ^ 1071"

text \<open>
  On a finite argument \<^verbatim>\<open>erf\<close> and \<^verbatim>\<open>normCDF\<close> stay in the finite reals; these are their
  values there.
\<close>

definition erf_r :: "real \<Rightarrow> real" where
  "erf_r x0 =
     (let sign = (if x0 \<ge> 0 then 1 else - 1);
          x = \<bar>x0\<bar>;
          t = 1 / (1 + 0.3275911 * x);
          poly = ((((1.061405429 * t + (- 1.453152027)) * t + 1.421413741) * t
                   + (- 0.284496736)) * t + 0.254829592);
          y = 1 - poly * t * exp (- x * x)
      in sign * y)"

definition normCDF_r :: "real \<Rightarrow> real" where
  "normCDF_r x = 0.5 * (1 + erf_r (x / sqrt 2))"

text \<open>
  The Kolmogorov-Smirnov statistic in the words of the specification, over the ascending
  points \<open>xs ! i\<close>, \<open>i = 0 .. n - 1\<close>: \<open>D+\<close> is the maximum of \<open>(i + 1) / n\<close> minus the
  theoretical CDF, \<open>D-\<close> the maximum of the theoretical CDF minus \<open>i / n\<close>.
\<close>

definition ks_Dplus_spec :: "real list \<Rightarrow> real \<Rightarrow> real \<Rightarrow> real" where
  "ks_Dplus_spec xs mu sigma =
     Max (set (map (\<lambda>i. (real i + 1) / real (length xs) - normCDF_r ((xs ! i - mu) / sigma))
                [0 ..< length xs]))"

definition ks_Dminus_spec :: "real list \<Rightarrow> real \<Rightarrow> real \<Rightarrow> real" where
  "ks_Dminus_spec xs mu sigma =
     Max (set (map (\<lambda>i. normCDF_r ((xs ! i - mu) / sigma) - real i / real (length xs))
                [0 ..< length xs]))"

text \<open>
  The four-branch p-value approximation of \<^verbatim>\<open>andersonDarlingTest\<close> at a finite adjusted
  statistic, before clamping.
\<close>

definition ad_pValue_r :: "real \<Rightarrow> real" where
  "ad_pValue_r A =
     (if A < 0.2 then 1 - exp (- 13.436 + 101.14 * A - 223.73 * A * A)
      else if A < 0.34 then 1 - exp (- 8.318 + 42.796 * A - 59.938 * A * A)
      else if A < 0.6 then exp (0.9177 - 4.279 * A - 1.38 * A * A)
      else exp (1.2937 - 5.709 * A + 0.0186 * A * A))"

text \<open>
  For the single observation \<open>0\<close> tested against \<open>mu = 0\<close>, \<open>sigma = 1\<close>: the product
  \<open>phi1 * phi2\<close>, where \<open>phi1 = normCDF(0) = (1 + 10^-9) / 2\<close>.
\<close>

definition ad_q :: real where
  "ad_q = (1000000001 / 2000000000) * (999999999 / 2000000000)"

text \<open>
  The two states between which the golden-section loop alternates on the bracket of the
  adjacent doubles \<open>1\<close> and \<open>1 + 2^-52\<close>, with the identity as objective and the
  tolerance \<open>2^-60\<close>.
\<close>

definition gss_cycle_state ::
  "(number \<Rightarrow> number) \<Rightarrow> number \<Rightarrow> number \<Rightarrow> number \<Rightarrow> number \<Rightarrow> number \<Rightarrow> number \<Rightarrow> number
     \<Rightarrow> number \<Rightarrow> bool" where
  "gss_cycle_state f resphi tol a b x1 x2 f1 f2 \<longleftrightarrow>
     f = (\<lambda>x. x) \<and> resphi = Num (215027748241771 / 2 ^ 49) \<and> tol = Num (1 / 2 ^ 60)
     \<and> a = Num 1 \<and> b = Num (1 + 1 / 2 ^ 52) \<and> x1 = Num 1 \<and> f1 = Num 1
     \<and> (x2 = Num (1 + 1 / 2 ^ 52) \<and> f2 = Num (1 + 1 / 2 ^ 52) \<or> x2 = Num 1 \<and> f2 = Num 1)"

section \<open>Properties of the rounding\<close>

subsection \<open>Rounding to the nearest integer\<close>

lemma round_even_eqI: "\<bar>y - real_of_int m\<bar> < 1 / 2 \<Longrightarrow> round_even y = m"
proof -
  assume a: "\<bar>y - real_of_int m\<bar> < 1 / 2"
  show ?thesis
  proof (cases "real_of_int m \<le> y")
    case True
    then have "\<lfloor>y\<rfloor> = m" using a by linarith
    then show ?thesis using a True by (simp add: round_even_def Let_def)
  next
    case False
    then have f: "\<lfloor>y\<rfloor> = m - 1" using a by linarith
    have "1 / 2 < y - real_of_int (m - 1)" using a False by simp
    then show ?thesis using f by (simp add: round_even_def Let_def)
  qed
qed

lemma round_even_tieI:
  assumes "\<bar>y - real_of_int m\<bar> = 1 / 2" and "even m"
  shows "round_even y = m"
proof (cases "real_of_int m \<le> y")
  case True
  then have y: "y = real_of_int m + 1 / 2" using assms(1) by linarith
  then have "\<lfloor>y\<rfloor> = m" by linarith
  then show ?thesis using y assms(2) by (simp add: round_even_def Let_def)
next
  case False
  then have y: "y = real_of_int m - 1 / 2" using assms(1) by linarith
  then have f: "\<lfloor>y\<rfloor> = m - 1" by linarith
  have "odd (m - 1)" using assms(2) by simp
  then show ?thesis using y f by (simp add: round_even_def Let_def)
qed

lemma round_even_of_int: "round_even (real_of_int m) = m"
  by (rule round_even_eqI) simp

lemma round_even_near: "\<bar>real_of_int (round_even y) - y\<bar> \<le> 1 / 2"
proof -
  have "real_of_int \<lfloor>y\<rfloor> \<le> y" "y < real_of_int \<lfloor>y\<rfloor> + 1" by linarith+
  then show ?thesis by (auto simp: round_even_def Let_def)
qed

lemma round_even_mono:
  assumes "y1 \<le> y2"
  shows "round_even y1 \<le> round_even y2"
proof (rule ccontr)
  assume "\<not> round_even y1 \<le> round_even y2"
  then have 1: "real_of_int (round_even y2) + 1 \<le> real_of_int (round_even y1)"
    by linarith
  have "y2 \<le> y1"
    using round_even_near[of y1] round_even_near[of y2] 1 by linarith
  then have "y1 = y2" using assms by simp
  then show False using \<open>\<not> round_even y1 \<le> round_even y2\<close> by simp
qed

lemma round_even_uminus: "round_even (- y) = - round_even y"
proof (cases "y = real_of_int \<lfloor>y\<rfloor>")
  case True
  then obtain m where "y = real_of_int m" by blast
  then show ?thesis using round_even_of_int[of m] round_even_of_int[of "- m"] by simp
next
  case False
  define f where "f = \<lfloor>y\<rfloor>"
  have f1: "real_of_int f < y" "y < real_of_int f + 1" using False unfolding f_def by linarith+
  have nf: "\<lfloor>- y\<rfloor> = - f - 1" using f1 by linarith
  consider "y - real_of_int f < 1 / 2" | "1 / 2 < y - real_of_int f" | "y - real_of_int f = 1 / 2"
    by linarith
  then show ?thesis
  proof cases
    case 1
    then show ?thesis using nf f_def by (simp add: round_even_def Let_def)
  next
    case 2
    then show ?thesis using nf f_def by (simp add: round_even_def Let_def)
  next
    case 3
    then show ?thesis using nf f_def by (simp add: round_even_def Let_def)
  qed
qed

lemma round_even_nonneg: "0 \<le> y \<Longrightarrow> 0 \<le> round_even y"
  using round_even_mono[of 0 y] round_even_of_int[of 0] by simp

subsection \<open>The value of \<open>fl\<close>\<close>

lemma powr_neg_nat: "2 powr real_of_int (- int k) = 1 / 2 ^ k"
  by (simp add: powr_minus powr_realpow inverse_eq_divide)

lemma ulp_exp_binade:
  assumes "2 ^ 52 \<le> \<bar>x\<bar> * 2 ^ k" and "\<bar>x\<bar> * 2 ^ k < 2 ^ 53"
  shows "\<lfloor>log 2 \<bar>x\<bar>\<rfloor> - 52 = - int k"
proof -
  have pos: "0 < \<bar>x\<bar>" using assms(1) by (cases "x = 0") auto
  have p1: "2 powr real_of_int (52 - int k) = 2 ^ 52 / 2 ^ k"
    by (simp add: powr_diff powr_realpow flip: powr_realpow[of 2 52])
  have p2: "2 powr real_of_int (52 - int k + 1) = 2 ^ 53 / 2 ^ k"
    using powr_diff[of 2 53 "real k"] by (simp add: powr_realpow flip: powr_realpow[of 2 53])
  have "2 powr real_of_int (52 - int k) \<le> \<bar>x\<bar>"
    unfolding p1 using assms(1) by (simp add: field_simps)
  moreover have "\<bar>x\<bar> < 2 powr real_of_int (52 - int k + 1)"
    unfolding p2 using assms(2) by (simp add: field_simps)
  ultimately have "\<lfloor>log 2 \<bar>x\<bar>\<rfloor> = 52 - int k"
    using floor_log_eq_powr_iff[of "\<bar>x\<bar>" 2 "52 - int k"] pos by simp
  then show ?thesis by simp
qed

lemma fl_eq_round:
  assumes k: "k \<le> 1074"
    and lo: "2 ^ 52 \<le> \<bar>x\<bar> * 2 ^ k" and hi: "\<bar>x\<bar> * 2 ^ k < 2 ^ 53"
    and r: "round_even (x * 2 ^ k) = m"
  shows "fl x = Num (real_of_int m / 2 ^ k)"
proof -
  have x0: "x \<noteq> 0" using lo by auto
  have e: "max (\<lfloor>log 2 \<bar>x\<bar>\<rfloor> - 52) (- 1074) = - int k"
    using ulp_exp_binade[OF lo hi] k by simp
  have near: "\<bar>real_of_int m - x * 2 ^ k\<bar> \<le> 1 / 2"
    using round_even_near[of "x * 2 ^ k"] r by simp
  have "\<bar>real_of_int m\<bar> < 2 ^ 53 + 1"
  proof -
    have "\<bar>real_of_int m\<bar> \<le> \<bar>x * 2 ^ k\<bar> + \<bar>real_of_int m - x * 2 ^ k\<bar>" by linarith
    also have "\<bar>x * 2 ^ k\<bar> = \<bar>x\<bar> * 2 ^ k" by (simp add: abs_mult)
    finally show ?thesis using hi near by linarith
  qed
  then have "\<bar>real_of_int m\<bar> / 2 ^ k < 2 ^ 53 + 1"
  proof -
    assume *: "\<bar>real_of_int m\<bar> < 2 ^ 53 + 1"
    have "\<bar>real_of_int m\<bar> / 2 ^ k \<le> \<bar>real_of_int m\<bar> / 1"
      by (rule divide_left_mono) simp_all
    then show ?thesis using * by simp
  qed
  moreover have "(2 :: real) ^ 53 + 1 \<le> 2 ^ 54" by simp
  moreover have "(2 :: real) ^ 54 \<le> 2 ^ 1024" by (rule power_increasing) simp_all
  ultimately have "\<bar>real_of_int m\<bar> / 2 ^ k < 2 ^ 1024" by linarith
  then have fin: "\<not> 2 ^ 1024 \<le> \<bar>real_of_int m / 2 ^ k\<bar>" by (simp add: abs_divide del: power_numeral)
  show ?thesis
    unfolding fl_def Let_def e powr_neg_nat using x0 fin by (simp add: r del: power_numeral)
qed

lemma fl_eqI:
  assumes "k \<le> 1074" and "2 ^ 52 \<le> \<bar>x\<bar> * 2 ^ k" and "\<bar>x\<bar> * 2 ^ k < 2 ^ 53"
    and "\<bar>x * 2 ^ k - real_of_int m\<bar> < 1 / 2"
  shows "fl x = Num (real_of_int m / 2 ^ k)"
  using assms(1-3) round_even_eqI[OF assms(4)] by (rule fl_eq_round)

lemma fl_tieI:
  assumes "k \<le> 1074" and "2 ^ 52 \<le> \<bar>x\<bar> * 2 ^ k" and "\<bar>x\<bar> * 2 ^ k < 2 ^ 53"
    and "\<bar>x * 2 ^ k - real_of_int m\<bar> = 1 / 2" and "even m"
  shows "fl x = Num (real_of_int m / 2 ^ k)"
  using assms(1-3) round_even_tieI[OF assms(4,5)] by (rule fl_eq_round)

lemma fl_zero [simp]: "fl 0 = Num 0"
  by (simp add: fl_def)

lemma fl_exact:
  assumes x: "x = real_of_int m / 2 ^ k" and m: "\<bar>m\<bar> < 2 ^ 53" and k: "k \<le> 1074"
  shows "fl x = Num x"
proof (cases "x = 0")
  case True
  then show ?thesis by simp
next
  case False
  define L where "L = \<lfloor>log 2 \<bar>x\<bar>\<rfloor>"
  define e where "e = max (L - 52) (- 1074)"
  have pos: "0 < \<bar>x\<bar>" using False by simp
  have mm: "\<bar>real_of_int m\<bar> < 2 ^ 53"
    using m by (metis of_int_abs of_int_less_numeral_power_cancel_iff)
  have "\<bar>x\<bar> = \<bar>real_of_int m\<bar> / 2 ^ k" by (simp add: x abs_divide)
  also have "\<dots> < 2 ^ 53 / 2 ^ k"
    using mm by (simp add: divide_strict_right_mono)
  also have "\<dots> = 2 powr real_of_int (53 - int k)"
    using powr_diff[of 2 53 "real k"] by (simp add: powr_realpow flip: powr_realpow[of 2 53])
  finally have "log 2 \<bar>x\<bar> < real_of_int (53 - int k)"
    using pos by (simp add: log_less_iff)
  then have "L < 53 - int k" unfolding L_def by linarith
  then have e1: "e \<le> - int k" and e2: "- 1074 \<le> e" using k by (simp_all add: e_def)
  define j where "j = nat (- int k - e)"
  have e: "e = - int (k + j)" using e1 by (simp add: j_def)
  have q: "x / 2 powr real_of_int e = real_of_int (m * 2 ^ j)"
    unfolding e powr_neg_nat by (simp add: x power_add)
  have r: "real_of_int (m * 2 ^ j) * 2 powr real_of_int e = x"
    unfolding e powr_neg_nat by (simp add: x power_add)
  have "\<bar>x\<bar> < 2 ^ 53"
  proof -
    have "\<bar>x\<bar> \<le> \<bar>real_of_int m\<bar> / 1" unfolding x abs_divide
      by (rule divide_left_mono) simp_all
    then show ?thesis using mm by simp
  qed
  moreover have "(2 :: real) ^ 53 \<le> 2 ^ 1024" by (rule power_increasing) simp_all
  ultimately have fin: "\<not> 2 ^ 1024 \<le> \<bar>x\<bar>" by linarith
  have "fl x = (if 2 ^ 1024 \<le> \<bar>real_of_int (round_even (x / 2 powr real_of_int e)) * 2 powr real_of_int e\<bar>
                then inf_of x
                else Num (real_of_int (round_even (x / 2 powr real_of_int e)) * 2 powr real_of_int e))"
    using False by (simp add: fl_def Let_def e_def L_def del: power_numeral)
  also have "\<dots> = Num x"
    unfolding q round_even_of_int r using fin by (simp del: power_numeral)
  finally show ?thesis .
qed

lemma fl_of_nat: "n \<le> 2 ^ 53 - 1 \<Longrightarrow> fl (real n) = Num (real n)"
  using fl_exact[of "real n" "int n" 0] by simp


subsection \<open>Monotonicity and overflow\<close>

lemma fl_flr: "fl x = (if 2 ^ 1024 \<le> \<bar>flr x\<bar> then inf_of x else Num (flr x))"
  by (simp add: fl_def flr_def fl_exp_def Let_def del: power_numeral)

lemma fl_exp_uminus: "fl_exp (- x) = fl_exp x"
  by (simp add: fl_exp_def)

lemma flr_uminus: "flr (- x) = - flr x"
  by (simp add: flr_def fl_exp_uminus round_even_uminus)

lemma flr_nonneg: "0 \<le> x \<Longrightarrow> 0 \<le> flr x"
  by (simp add: flr_def round_even_nonneg)

lemma flr_nonpos: "x \<le> 0 \<Longrightarrow> flr x \<le> 0"
  using flr_nonneg[of "- x"] by (simp add: flr_uminus)

lemma fl_exp_mono:
  assumes "0 < x" and "x \<le> y"
  shows "fl_exp x \<le> fl_exp y"
proof -
  have "log 2 x \<le> log 2 y" using assms by simp
  then have "\<lfloor>log 2 x\<rfloor> \<le> \<lfloor>log 2 y\<rfloor>" by (rule floor_mono)
  then show ?thesis using assms by (simp add: fl_exp_def)
qed

lemma powr_int_add: "2 powr real_of_int (a + b) = 2 powr real_of_int a * 2 powr real_of_int b"
  by (simp add: powr_add)

lemma powr_shift: "2 powr real_of_int (a + int n) = 2 powr real_of_int a * 2 ^ n"
  by (simp add: powr_add powr_realpow)

lemma flr_zero [simp]: "flr 0 = 0"
  by (simp add: flr_def)

lemma scaled_below:
  assumes "0 < x"
  shows "x / 2 powr real_of_int (fl_exp x) < 2 ^ 53"
proof -
  define L where "L = \<lfloor>log 2 x\<rfloor>"
  have "log 2 x < real_of_int (L + 1)" unfolding L_def by linarith
  then have "x < 2 powr real_of_int (L + 1)" using assms by (simp add: log_less_iff)
  also have "\<dots> \<le> 2 powr real_of_int (fl_exp x + 53)"
    using assms by (intro powr_mono) (simp_all add: fl_exp_def L_def)
  also have "\<dots> = 2 powr real_of_int (fl_exp x) * 2 ^ 53"
    using powr_shift[of "fl_exp x" 53] by simp
  finally show ?thesis by (simp add: field_simps)
qed

lemma scaled_above:
  assumes "0 < y" and "- 1074 < fl_exp y"
  shows "2 ^ 52 \<le> y / 2 powr real_of_int (fl_exp y)"
proof -
  define L where "L = \<lfloor>log 2 y\<rfloor>"
  have e: "fl_exp y = L - 52" using assms by (simp add: fl_exp_def L_def)
  have "real_of_int L \<le> log 2 y" unfolding L_def by linarith
  then have "2 powr real_of_int L \<le> y" using assms(1) by (simp add: le_log_iff)
  moreover have "2 powr real_of_int L = 2 powr real_of_int (fl_exp y) * 2 ^ 52"
  proof -
    have "L = fl_exp y + int 52" using e by simp
    then show ?thesis using powr_shift[of "fl_exp y" 52] by simp
  qed
  ultimately show ?thesis by (simp add: field_simps)
qed

lemma flr_mono_pos:
  assumes "0 < x" and "x \<le> y"
  shows "flr x \<le> flr y"
proof -
  have y: "0 < y" using assms by simp
  have ee: "fl_exp x \<le> fl_exp y" by (rule fl_exp_mono[OF assms])
  show ?thesis
  proof (cases "fl_exp x = fl_exp y")
    case True
    have "x / 2 powr real_of_int (fl_exp y) \<le> y / 2 powr real_of_int (fl_exp y)"
      using assms by (simp add: divide_right_mono)
    then have "round_even (x / 2 powr real_of_int (fl_exp y))
                 \<le> round_even (y / 2 powr real_of_int (fl_exp y))"
      by (rule round_even_mono)
    then show ?thesis using assms y True by (simp add: flr_def)
  next
    case False
    then have lt: "fl_exp x + 1 \<le> fl_exp y" using ee by simp
    have "- 1074 \<le> fl_exp x" by (simp add: fl_exp_def)
    then have big: "- 1074 < fl_exp y" using lt by simp
    have "round_even (x / 2 powr real_of_int (fl_exp x)) \<le> round_even (real_of_int (2 ^ 53))"
      by (rule round_even_mono) (use scaled_below[OF assms(1)] in simp)
    then have rx: "round_even (x / 2 powr real_of_int (fl_exp x)) \<le> 2 ^ 53"
      unfolding round_even_of_int .
    have "round_even (real_of_int (2 ^ 52)) \<le> round_even (y / 2 powr real_of_int (fl_exp y))"
      by (rule round_even_mono) (use scaled_above[OF y big] in simp)
    then have ry: "2 ^ 52 \<le> round_even (y / 2 powr real_of_int (fl_exp y))"
      unfolding round_even_of_int .
    have "flr x \<le> 2 ^ 53 * 2 powr real_of_int (fl_exp x)"
    proof -
      have "real_of_int (round_even (x / 2 powr real_of_int (fl_exp x))) \<le> 2 ^ 53"
        using rx by (metis of_int_le_numeral_power_cancel_iff)
      then show ?thesis using assms(1) by (simp add: flr_def mult_right_mono)
    qed
    also have "\<dots> = 2 ^ 52 * 2 powr real_of_int (fl_exp x + 1)"
      unfolding powr_int_add by simp
    also have "\<dots> \<le> 2 ^ 52 * 2 powr real_of_int (fl_exp y)"
      using lt by (intro mult_left_mono powr_mono) simp_all
    also have "\<dots> \<le> flr y"
    proof -
      have "2 ^ 52 \<le> real_of_int (round_even (y / 2 powr real_of_int (fl_exp y)))"
        using ry by (metis numeral_power_le_of_int_cancel_iff)
      then show ?thesis using y by (simp add: flr_def mult_right_mono)
    qed
    finally show ?thesis .
  qed
qed

lemma flr_mono:
  assumes "x \<le> y"
  shows "flr x \<le> flr y"
proof -
  consider "0 < x" | "x \<le> 0" "0 \<le> y" | "y < 0" by linarith
  then show ?thesis
  proof cases
    case 1
    then show ?thesis using assms by (rule flr_mono_pos)
  next
    case 2
    then show ?thesis using flr_nonpos[of x] flr_nonneg[of y] by linarith
  next
    case 3
    then have "flr (- y) \<le> flr (- x)" using assms by (intro flr_mono_pos) simp_all
    then show ?thesis by (simp add: flr_uminus)
  qed
qed

lemma fl_not_NaN: "fl x \<noteq> NaN"
proof (cases "x = 0")
  case True
  then show ?thesis by simp
next
  case False
  then show ?thesis by (simp add: fl_flr inf_of_def del: power_numeral)
qed

lemma fl_mono:
  assumes "x \<le> y"
  shows "jle (fl x) (fl y)"
proof -
  have m: "flr x \<le> flr y" by (rule flr_mono[OF assms])
  have p: "(0 :: real) < 2 ^ 1024" by simp
  consider "0 < x" | "x = 0" | "x < 0" by linarith
  then show ?thesis
  proof cases
    case 1
    then have "0 \<le> flr x" "0 \<le> flr y" "0 < y" using assms flr_nonneg[of x] flr_nonneg[of y] by simp_all
    then show ?thesis using m 1 by (simp add: fl_flr inf_of_def del: power_numeral)
  next
    case 2
    then have "0 \<le> flr y" "0 \<le> y" using assms flr_nonneg[of y] by simp_all
    then show ?thesis using 2 p by (auto simp add: fl_flr inf_of_def simp del: power_numeral)
  next
    case 3
    have nx: "flr x \<le> 0" using 3 flr_nonpos[of x] by simp
    consider "0 < y" | "y = 0" | "y < 0" by linarith
    then show ?thesis
    proof cases
      case 1
      then have "0 \<le> flr y" using flr_nonneg[of y] by simp
      then show ?thesis using 1 3 nx by (simp add: fl_flr inf_of_def del: power_numeral)
    next
      case 2
      then show ?thesis using 3 nx p by (simp add: fl_flr[of x] inf_of_def del: power_numeral)
    next
      case 3
      then have "flr y \<le> 0" using flr_nonpos[of y] by simp
      then show ?thesis using 3 \<open>x < 0\<close> nx m by (simp add: fl_flr inf_of_def del: power_numeral)
    qed
  qed
qed

lemma fl_nonneg: "0 \<le> x \<Longrightarrow> jle (Num 0) (fl x)"
  using fl_mono[of 0 x] by simp

lemma fl_nonpos: "x \<le> 0 \<Longrightarrow> jle (fl x) (Num 0)"
  using fl_mono[of x 0] by simp

lemma fl_le_double: "x \<le> c \<Longrightarrow> fl c = Num c \<Longrightarrow> jle (fl x) (Num c)"
  using fl_mono[of x c] by simp

lemma fl_ge_double: "c \<le> x \<Longrightarrow> fl c = Num c \<Longrightarrow> jle (Num c) (fl x)"
  using fl_mono[of c x] by simp

lemma flr_pow_1024: "flr (2 ^ 1024) = 2 ^ 1024"
proof -
  have l: "log 2 (2 ^ 1024) = 1024" by (simp add: log_nat_power del: power_numeral)
  have e: "fl_exp (2 ^ 1024) = 972" by (simp add: fl_exp_def l del: power_numeral)
  have p: "(2 :: real) powr 972 = 2 ^ 972" by (simp add: powr_realpow flip: powr_realpow[of 2 972])
  have q: "(2 :: real) ^ 1024 / 2 ^ 972 = real_of_int (2 ^ 52)"
    by (simp add: power_diff[symmetric] del: power_numeral)
  have s: "real_of_int (2 ^ 52) * (2 :: real) ^ 972 = 2 ^ 1024"
    by (simp add: power_add[symmetric] del: power_numeral)
  show ?thesis
    unfolding flr_def e by (simp only: of_int_numeral p q round_even_of_int s) simp
qed

lemma fl_overflow:
  assumes "2 ^ 1024 \<le> \<bar>x\<bar>"
  shows "fl x = inf_of x"
proof -
  have "flr (2 ^ 1024) \<le> flr \<bar>x\<bar>" by (rule flr_mono[OF assms])
  moreover have "flr \<bar>x\<bar> = \<bar>flr x\<bar>"
  proof (cases "0 \<le> x")
    case True
    then show ?thesis using flr_nonneg[of x] by simp
  next
    case False
    then have "flr x \<le> 0" using flr_nonpos[of x] by simp
    then show ?thesis using False by (simp add: flr_uminus abs_if)
  qed
  ultimately show ?thesis by (simp add: fl_flr flr_pow_1024 del: power_numeral)
qed

subsection \<open>The rounding error\<close>

lemma u53_bounds: "0 < u53" "u53 \<le> 1 / 2" "0 < eta" "eta \<le> u53"
proof -
  show "0 < u53" "u53 \<le> 1 / 2" "0 < eta" by (simp_all add: u53_def eta_def)
  have "(2 :: real) ^ 53 \<le> 2 ^ 1075" by (rule power_increasing) simp_all
  then show "eta \<le> u53" unfolding u53_def eta_def
    by (intro divide_left_mono) (simp_all del: power_numeral)
qed

lemma fl_exp_powr_le: "x \<noteq> 0 \<Longrightarrow> 2 powr real_of_int (fl_exp x) \<le> 2 * (\<bar>x\<bar> * u53 + eta)"
proof -
  assume x: "x \<noteq> 0"
  define L where "L = \<lfloor>log 2 \<bar>x\<bar>\<rfloor>"
  show ?thesis
  proof (cases "L - 52 \<le> - 1074")
    case True
    then have "fl_exp x = - int 1074" by (simp add: fl_exp_def L_def)
    then have "2 powr real_of_int (fl_exp x) = 1 / 2 ^ 1074" by (simp only: powr_neg_nat)
    also have "\<dots> = 2 * eta"
    proof -
      have "(2 :: real) ^ 1075 = 2 * 2 ^ 1074" by (simp only: power_Suc[symmetric]) simp
      then show ?thesis by (simp add: eta_def del: power_numeral)
    qed
    also have "\<dots> \<le> 2 * (\<bar>x\<bar> * u53 + eta)" using u53_bounds(1) by simp
    finally show ?thesis .
  next
    case False
    then have e: "L = fl_exp x + int 52" by (simp add: fl_exp_def L_def)
    have "real_of_int L \<le> log 2 \<bar>x\<bar>" unfolding L_def by linarith
    then have "2 powr real_of_int L \<le> \<bar>x\<bar>" using x by (simp add: le_log_iff)
    then have "2 powr real_of_int (fl_exp x) * 2 ^ 52 \<le> \<bar>x\<bar>"
      unfolding e powr_shift .
    then have "2 powr real_of_int (fl_exp x) \<le> \<bar>x\<bar> / 2 ^ 52" by (simp add: field_simps)
    also have "\<dots> = 2 * (\<bar>x\<bar> * u53)" by (simp add: u53_def)
    also have "\<dots> \<le> 2 * (\<bar>x\<bar> * u53 + eta)" using u53_bounds(3) by simp
    finally show ?thesis .
  qed
qed

lemma flr_err: "\<bar>flr x - x\<bar> \<le> \<bar>x\<bar> * u53 + eta"
proof (cases "x = 0")
  case True
  then show ?thesis using u53_bounds(3) by simp
next
  case False
  define p where "p = 2 powr real_of_int (fl_exp x)"
  have p: "0 < p" by (simp add: p_def)
  define y where "y = x / p"
  have x: "x = y * p" using p by (simp add: y_def)
  have "flr x - x = (real_of_int (round_even y) - y) * p"
    using False p by (simp add: flr_def y_def p_def algebra_simps)
  then have "\<bar>flr x - x\<bar> = \<bar>real_of_int (round_even y) - y\<bar> * p"
    using p by (simp add: abs_mult)
  also have "\<dots> \<le> 1 / 2 * p"
    using round_even_near[of y] p by (intro mult_right_mono) simp_all
  also have "\<dots> \<le> 1 / 2 * (2 * (\<bar>x\<bar> * u53 + eta))"
    using fl_exp_powr_le[OF False] unfolding p_def by (intro mult_left_mono) simp_all
  finally show ?thesis by simp
qed

lemma flr_abs_le: "\<bar>flr x\<bar> \<le> \<bar>x\<bar> + (\<bar>x\<bar> * u53 + eta)"
  using flr_err[of x] by linarith

lemma fl_finite:
  assumes "\<bar>x\<bar> \<le> 2 ^ 1023"
  shows "fl x = Num (flr x)"
proof -
  have b: "(1 :: real) < 2 ^ 1023" by (rule one_less_power) simp_all
  have "\<bar>x\<bar> * u53 \<le> 2 ^ 1023 * (1 / 2)"
    using assms u53_bounds by (intro mult_mono) simp_all
  moreover have "eta \<le> 1 / 2" using u53_bounds by linarith
  ultimately have "\<bar>flr x\<bar> < 2 ^ 1023 + 2 ^ 1023"
    using flr_abs_le[of x] assms b by linarith
  also have "(2 :: real) ^ 1023 + 2 ^ 1023 = 2 ^ 1024"
    by (simp add: power_Suc[of 2 1023, simplified] del: power_numeral)
  finally show ?thesis by (simp add: fl_flr del: power_numeral)
qed

lemma flr_unit:
  assumes "0 \<le> x" and "x \<le> 1"
  shows "0 \<le> flr x" and "flr x \<le> 1"
proof -
  show "0 \<le> flr x" using assms(1) by (rule flr_nonneg)
  have "flr 1 = 1"
    using fl_exact[of 1 1 0] fl_finite[of 1] by (simp del: power_numeral)
  then show "flr x \<le> 1" using flr_mono[OF assms(2)] by simp
qed

subsection \<open>Special values\<close>

lemma rnd_simps [simp]: "rnd (Num x) = fl x" "rnd PosInf = PosInf" "rnd NegInf = NegInf" "rnd NaN = NaN"
  by (simp_all add: rnd_def)

lemma fops_NaN [simp]:
  "fadd NaN b = NaN" "fadd a NaN = NaN" "fsub NaN b = NaN" "fsub a NaN = NaN"
  "fmul NaN b = NaN" "fmul a NaN = NaN" "fdiv NaN b = NaN" "fdiv a NaN = NaN"
proof -
  show "fadd NaN b = NaN" "fmul NaN b = NaN" "fdiv NaN b = NaN" "fsub NaN b = NaN"
    by (simp_all add: fadd_def fmul_def fdiv_def fsub_def jsub_def)
  show "fadd a NaN = NaN" "fmul a NaN = NaN" "fdiv a NaN = NaN" "fsub a NaN = NaN"
    by (cases a; simp add: fadd_def fmul_def fdiv_def fsub_def jsub_def)+
qed

lemmas fl_ops = fadd_def fsub_def fmul_def fdiv_def rnd_def jsub_def

section \<open>Quantile, VaR and CVaR\<close>

subsection \<open>Roundings of the worked examples\<close>

lemma fl_tab_1: "fl (11 / 10) = Num (2476979795053773 / 2251799813685248)"
  using fl_eqI[of 52 "11 / 10" "4953959590107546"] by simp

lemma fl_tab_2: "fl (1 / 20) = Num (3602879701896397 / 72057594037927936)"
  using fl_eqI[of 57 "1 / 20" "7205759403792794"] by simp

lemma fl_tab_3: "fl (19 / 20) = Num (4278419646001971 / 4503599627370496)"
  using fl_eqI[of 53 "19 / 20" "8556839292003942"] by simp

lemma fl_tab_4: "fl (99 / 100) = Num (4458563631096791 / 4503599627370496)"
  using fl_eqI[of 53 "99 / 100" "8917127262193582"] by simp

lemma fl_tab_5: "fl (225179981368525 / 4503599627370496) = Num (225179981368525 / 4503599627370496)"
  using fl_eqI[of 57 "225179981368525 / 4503599627370496" "7205759403792800"] by simp

lemma fl_tab_6: "fl (45035996273705 / 4503599627370496) = Num (45035996273705 / 4503599627370496)"
  using fl_eqI[of 59 "45035996273705 / 4503599627370496" "5764607523034240"] by simp

lemma fl_tab_7: "fl (17 / 10) = Num (7656119366529843 / 4503599627370496)"
  using fl_eqI[of 52 "17 / 10" "7656119366529843"] by simp

lemma fl_tab_8: "fl (27 / 10) = Num (3039929748475085 / 1125899906842624)"
  using fl_eqI[of 51 "27 / 10" "6079859496950170"] by simp

lemma fl_tab_9: "fl (19 / 10) = Num (4278419646001971 / 2251799813685248)"
  using fl_eqI[of 52 "19 / 10" "8556839292003942"] by simp

lemma fl_tab_10: "fl (29 / 10) = Num (6530219459687219 / 2251799813685248)"
  using fl_eqI[of 51 "29 / 10" "6530219459687219"] by simp

lemma fl_tab_11: "fl (1 / 4) = Num (1 / 4)"
  using fl_eqI[of 54 "1 / 4" "4503599627370496"] by simp

lemma fl_tab_12: "fl (1 / 2) = Num (1 / 2)"
  using fl_eqI[of 53 "1 / 2" "4503599627370496"] by simp

lemma fl_tab_13: "fl (3 / 4) = Num (3 / 4)"
  using fl_eqI[of 53 "3 / 4" "6755399441055744"] by simp

lemma fl_tab_14: "fl (3602879701896397 / 72057594037927936) = Num (3602879701896397 / 72057594037927936)"
  using fl_eqI[of 57 "3602879701896397 / 72057594037927936" "7205759403792794"] by simp

lemma fl_tab_15: "fl (68454714336031539 / 72057594037927936) = Num (4278419646001971 / 4503599627370496)"
  using fl_eqI[of 53 "68454714336031539 / 72057594037927936" "8556839292003942"] by simp

lemma fl_tab_16: "fl (10597559017907998156800408986583 / 10141204801825835211973625643008) = Num (588282701325271 / 562949953421312)"
  using fl_eqI[of 52 "10597559017907998156800408986583 / 10141204801825835211973625643008" "4706261610602168"] by simp

lemma fl_tab_17: "fl (8924260225606736202508689955881 / 162259276829213363391578010288128) = Num (3963167672086037 / 72057594037927936)"
  using fl_eqI[of 57 "8924260225606736202508689955881 / 162259276829213363391578010288128" "7926335344172074"] by simp

lemma fl_tab_18: "fl (79263353441720725 / 72057594037927936) = Num (4953959590107545 / 4503599627370496)"
  using fl_eqI[of 52 "79263353441720725 / 72057594037927936" "4953959590107545"] by simp

lemma fl_tab_19: "fl (225179981368525 / 2251799813685248) = Num (225179981368525 / 2251799813685248)"
  using fl_eqI[of 56 "225179981368525 / 2251799813685248" "7205759403792800"] by simp

lemma fl_tab_20: "fl (675539944105575 / 4503599627370496) = Num (675539944105575 / 4503599627370496)"
  using fl_eqI[of 55 "675539944105575 / 4503599627370496" "5404319552844600"] by simp

lemma fl_tab_21: "fl (45035996273705 / 2251799813685248) = Num (45035996273705 / 2251799813685248)"
  using fl_eqI[of 58 "45035996273705 / 2251799813685248" "5764607523034240"] by simp

lemma fl_tab_22: "fl (4278419646001971 / 4503599627370496) = Num (4278419646001971 / 4503599627370496)"
  using fl_eqI[of 53 "4278419646001971 / 4503599627370496" "8556839292003942"] by simp

lemma fl_tab_23: "fl (5629499534213125 / 1125899906842624) = Num (5629499534213125 / 1125899906842624)"
  using fl_eqI[of 50 "5629499534213125 / 1125899906842624" "5629499534213125"] by simp

lemma fl_tab_24: "fl (4458563631096791 / 4503599627370496) = Num (4458563631096791 / 4503599627370496)"
  using fl_eqI[of 53 "4458563631096791 / 4503599627370496" "8917127262193582"] by simp

lemma fl_tab_25: "fl (1125899906842625 / 1125899906842624) = Num (1125899906842625 / 1125899906842624)"
  using fl_eqI[of 52 "1125899906842625 / 1125899906842624" "4503599627370500"] by simp

lemma fl_tab_26: "fl (21 / 10) = Num (4728779608739021 / 2251799813685248)"
  using fl_eqI[of 51 "21 / 10" "4728779608739021"] by simp

lemma fl_tab_27: "fl (2026619832316723 / 2251799813685248) = Num (2026619832316723 / 2251799813685248)"
  using fl_eqI[of 53 "2026619832316723 / 2251799813685248" "8106479329266892"] by simp

lemma fl_tab_28: "fl (- (9583438537725413734883120948183 / 5070602400912917605986812821504)) = Num (- (8511803295730237 / 4503599627370496))"
  using fl_eqI[of 52 "- (9583438537725413734883120948183 / 5070602400912917605986812821504)" "- 8511803295730237"] by simp

lemma fl_tab_29: "fl (- (1064826504191713688049148714025 / 5070602400912917605986812821504)) = Num (- (945755921747805 / 4503599627370496))"
  using fl_eqI[of 55 "- (1064826504191713688049148714025 / 5070602400912917605986812821504)" "- 7566047373982440"] by simp

lemma fl_tab_30: "fl (- (4728779608739021 / 2251799813685248)) = Num (- (4728779608739021 / 2251799813685248))"
  using fl_eqI[of 51 "- (4728779608739021 / 2251799813685248)" "- 4728779608739021"] by simp

lemma fl_tab_31: "fl (2206763817411543 / 2251799813685248) = Num (2206763817411543 / 2251799813685248)"
  using fl_eqI[of 53 "2206763817411543 / 2251799813685248" "8827055269646172"] by simp

lemma fl_tab_32: "fl (- (10435299741078784685322439919403 / 5070602400912917605986812821504)) = Num (- (289637751035265 / 140737488355328))"
  using fl_eqI[of 51 "- (10435299741078784685322439919403 / 5070602400912917605986812821504)" "- 4634204016564240"] by simp

lemma fl_tab_33: "fl (- (212965300838342737609829742805 / 5070602400912917605986812821504)) = Num (- (189151184349561 / 4503599627370496))"
  using fl_eqI[of 57 "- (212965300838342737609829742805 / 5070602400912917605986812821504)" "- 6052837899185952"] by simp

lemma fl_tab_34: "fl (- (9457559217478041 / 4503599627370496)) = Num (- (1182194902184755 / 562949953421312))"
  using fl_tieI[of 51 "- (9457559217478041 / 4503599627370496)" "- 4728779608739020"] by simp

lemma fl_tab_35: "fl (- (12835258938005913 / 4503599627370496)) = Num (- (1604407367250739 / 562949953421312))"
  using fl_tieI[of 51 "- (12835258938005913 / 4503599627370496)" "- 6417629469002956"] by simp

lemma fl_tab_36: "fl (- (12610078956637387 / 4503599627370496)) = Num (- (3152519739159347 / 1125899906842624))"
  using fl_tieI[of 51 "- (12610078956637387 / 4503599627370496)" "- 6305039478318694"] by simp

lemma fl_tab_37: "fl (- (13375690893290373 / 4503599627370496)) = Num (- (3343922723322593 / 1125899906842624))"
  using fl_tieI[of 51 "- (13375690893290373 / 4503599627370496)" "- 6687845446645186"] by simp

lemma fl_tab_38: "fl (- (13330654897016667 / 4503599627370496)) = Num (- (3332663724254167 / 1125899906842624))"
  using fl_tieI[of 51 "- (13330654897016667 / 4503599627370496)" "- 6665327448508334"] by simp

lemma fl_tab_39: "fl (10808639105689191 / 72057594037927936) = Num (1351079888211149 / 9007199254740992)"
  using fl_tieI[of 55 "10808639105689191 / 72057594037927936" "5404319552844596"] by simp

lemma fl_tab_40: "fl (1351079888211149 / 9007199254740992) = Num (1351079888211149 / 9007199254740992)"
  using fl_eqI[of 55 "1351079888211149 / 9007199254740992" "5404319552844596"] by simp

lemma fl_tab_41: "fl (7656119366529843 / 9007199254740992) = Num (7656119366529843 / 9007199254740992)"
  using fl_eqI[of 53 "7656119366529843 / 9007199254740992" "7656119366529843"] by simp

lemma fl_tab_42: "fl (58616163754553324462759809604649 / 40564819207303340847894502572032) = Num (3253850730775183 / 2251799813685248)"
  using fl_eqI[of 52 "58616163754553324462759809604649 / 40564819207303340847894502572032" "6507701461550366"] by simp

lemma fl_tab_43: "fl (10344028897862353177220993819607 / 40564819207303340847894502572032) = Num (2296835809958953 / 9007199254740992)"
  using fl_eqI[of 54 "10344028897862353177220993819607 / 40564819207303340847894502572032" "4593671619917906"] by simp

lemma fl_tab_44: "fl (15312238733059685 / 9007199254740992) = Num (3828059683264921 / 2251799813685248)"
  using fl_tieI[of 52 "15312238733059685 / 9007199254740992" "7656119366529842"] by simp

lemma fl_tab_45: "fl (4278419646001971 / 2251799813685248) = Num (4278419646001971 / 2251799813685248)"
  using fl_eqI[of 52 "4278419646001971 / 2251799813685248" "8556839292003942"] by simp

lemma fl_tab_46: "fl (1470474696264747366744071381975 / 5070602400912917605986812821504) = Num (1306043891937445 / 4503599627370496)"
  using fl_eqI[of 54 "1470474696264747366744071381975 / 5070602400912917605986812821504" "5224175567749780"] by simp

lemma fl_tab_47: "fl (13234272266382713240257723063337 / 5070602400912917605986812821504) = Num (5877197513718497 / 2251799813685248)"
  using fl_eqI[of 51 "13234272266382713240257723063337 / 5070602400912917605986812821504" "5877197513718497"] by simp

lemma fl_tab_48: "fl (13060438919374439 / 4503599627370496) = Num (1632554864921805 / 562949953421312)"
  using fl_tieI[of 51 "13060438919374439 / 4503599627370496" "6530219459687220"] by simp

lemmas fl_tab = fl_tab_1 fl_tab_2 fl_tab_3 fl_tab_4 fl_tab_5 fl_tab_6 fl_tab_7 fl_tab_8 fl_tab_9 fl_tab_10 fl_tab_11 fl_tab_12 fl_tab_13 fl_tab_14 fl_tab_15 fl_tab_16 fl_tab_17 fl_tab_18 fl_tab_19 fl_tab_20 fl_tab_21 fl_tab_22 fl_tab_23 fl_tab_24 fl_tab_25 fl_tab_26 fl_tab_27 fl_tab_28 fl_tab_29 fl_tab_30 fl_tab_31 fl_tab_32 fl_tab_33 fl_tab_34 fl_tab_35 fl_tab_36 fl_tab_37 fl_tab_38 fl_tab_39 fl_tab_40 fl_tab_41 fl_tab_42 fl_tab_43 fl_tab_44 fl_tab_45 fl_tab_46 fl_tab_47 fl_tab_48

subsection \<open>Evaluating the rounded code\<close>

lemmas quantile_eval = quantile_def computeVaR_def Let_def fl_ops arr_at_def arr_get_def dbl_def
  jge_def jgt_def fl_tab

lemma arr_get_nth: "0 \<le> i \<Longrightarrow> i < int (length xs) \<Longrightarrow> arr_get xs i = Num (xs ! nat i)"
  by (simp add: arr_get_def)

lemma nat_int_pred: "nat (int n - 1) = n - 1"
  by linarith

lemma sorted_hd_Min: "sorted xs \<Longrightarrow> xs \<noteq> [] \<Longrightarrow> Min (set xs) = hd xs"
  by (cases xs) (auto intro!: Min_eqI)

lemma hd_nth0: "xs \<noteq> [] \<Longrightarrow> xs ! 0 = hd xs"
  by (cases xs) auto

lemma last_nth: "xs \<noteq> [] \<Longrightarrow> xs ! (length xs - 1) = last xs"
  by (simp add: last_conv_nth)

lemma sort_props: "data \<noteq> [] \<Longrightarrow> sort data \<noteq> []" "sorted (sort data)" "length (sort data) = length data"
  by (metis length_sort length_0_conv) simp_all

subsection \<open>The empirical quantile\<close>

lemma quantile_le0:
  assumes "xs \<noteq> []" and "jle p (Num 0)"
  shows "quantile xs p = Num (hd xs)"
  using assms hd_nth0[OF assms(1)] by (simp add: quantile_def arr_get_def)

lemma jle_0_not_ge_1: "jle p (Num 0) \<Longrightarrow> \<not> jge p (Num 1)"
  by (cases p) (simp_all add: jge_def)

lemma quantile_ge1:
  assumes "xs \<noteq> []" and "jge p (Num 1)"
  shows "quantile xs p = Num (last xs)"
proof -
  have "\<not> jle p (Num 0)" using assms(2) jle_0_not_ge_1 by blast
  moreover have "arr_get xs (int (length xs) - 1) = Num (xs ! (length xs - 1))"
    using assms(1) by (simp add: arr_get_def nat_int_pred)
  ultimately show ?thesis using assms last_nth[OF assms(1)] by (simp add: quantile_def)
qed

lemma fsub_one_nonpos:
  assumes "jge confidence (Num 1)"
  shows "jle (fsub (Num 1) confidence) (Num 0)"
proof (cases confidence)
  case (Num c)
  then have "1 - c \<le> 0" using assms by (simp add: jge_def)
  then show ?thesis using Num fl_nonpos[of "1 - c"] by (simp add: fl_ops)
qed (use assms in \<open>simp_all add: fl_ops jge_def\<close>)

subsection \<open>The rounding error of the interpolation\<close>

lemma abs_mult_le: "\<bar>x\<bar> \<le> A \<Longrightarrow> \<bar>y\<bar> \<le> B \<Longrightarrow> \<bar>x * y\<bar> \<le> A * (B :: real)"
proof -
  assume a: "\<bar>x\<bar> \<le> A" "\<bar>y\<bar> \<le> B"
  have "\<bar>x * y\<bar> = \<bar>x\<bar> * \<bar>y\<bar>" by (rule abs_mult)
  also have "\<dots> \<le> A * B" using a by (intro mult_mono) auto
  finally show ?thesis .
qed

lemma qround_parts:
  assumes w0: "0 \<le> w0" "w0 \<le> 1" and a: "\<bar>a\<bar> \<le> M" and b: "\<bar>b\<bar> \<le> M"
  shows "\<bar>qround a b w0 - (a * (1 - w0) + b * w0)\<bar> \<le> 16 * (M * u53 + eta)"
    and "\<bar>a * flr (1 - flr w0)\<bar> \<le> M" and "\<bar>b * flr w0\<bar> \<le> M"
    and "\<bar>flr (a * flr (1 - flr w0)) + flr (b * flr w0)\<bar> \<le> 4 * M + 1"
proof -
  define d where "d = M * u53 + eta"
  define w where "w = flr w0"
  define v where "v = flr (1 - w)"
  define P1 where "P1 = flr (a * v)"
  define P2 where "P2 = flr (b * w)"
  define R where "R = flr (P1 + P2)"
  note u = u53_bounds
  have M: "0 \<le> M" using a by linarith
  have Mu: "0 \<le> M * u53" using M u(1) by simp
  have d: "M * u53 \<le> d" "eta \<le> d" "0 \<le> d" using u Mu by (simp_all add: d_def)
  have w: "0 \<le> w" "w \<le> 1" unfolding w_def using flr_unit[OF w0] by simp_all
  have "\<bar>w - w0\<bar> \<le> \<bar>w0\<bar> * u53 + eta" unfolding w_def by (rule flr_err)
  also have "\<bar>w0\<bar> * u53 \<le> 1 * u53" using w0 u(1) by (intro mult_right_mono) simp_all
  finally have ew: "\<bar>w - w0\<bar> \<le> 2 * u53" using u(4) by simp
  have v: "0 \<le> v" "v \<le> 1" unfolding v_def using flr_unit[of "1 - w"] w by simp_all
  have "\<bar>v - (1 - w)\<bar> \<le> \<bar>1 - w\<bar> * u53 + eta" unfolding v_def by (rule flr_err)
  also have "\<bar>1 - w\<bar> * u53 \<le> 1 * u53" using w u(1) by (intro mult_right_mono) simp_all
  finally have ev: "\<bar>v - (1 - w)\<bar> \<le> 2 * u53" using u(4) by simp
  have av: "\<bar>a * v\<bar> \<le> M" using abs_mult_le[OF a, of v 1] v by simp
  have bw: "\<bar>b * w\<bar> \<le> M" using abs_mult_le[OF b, of w 1] w by simp
  show "\<bar>a * flr (1 - flr w0)\<bar> \<le> M" using av by (simp add: v_def w_def)
  show "\<bar>b * flr w0\<bar> \<le> M" using bw by (simp add: w_def)
  have "\<bar>P1 - a * v\<bar> \<le> \<bar>a * v\<bar> * u53 + eta" unfolding P1_def by (rule flr_err)
  also have "\<bar>a * v\<bar> * u53 \<le> M * u53" using av u(1) by (intro mult_right_mono) simp_all
  finally have e1: "\<bar>P1 - a * v\<bar> \<le> d" by (simp add: d_def)
  have "\<bar>P2 - b * w\<bar> \<le> \<bar>b * w\<bar> * u53 + eta" unfolding P2_def by (rule flr_err)
  also have "\<bar>b * w\<bar> * u53 \<le> M * u53" using bw u(1) by (intro mult_right_mono) simp_all
  finally have e2: "\<bar>P2 - b * w\<bar> \<le> d" by (simp add: d_def)
  have S: "\<bar>P1 + P2\<bar> \<le> 2 * M + 2 * d" using e1 e2 av bw by linarith
  have dle: "d \<le> M * (1 / 2) + 1 / 2"
  proof -
    have "M * u53 \<le> M * (1 / 2)" using M u(2) by (intro mult_left_mono) simp_all
    moreover have "eta \<le> 1 / 2" using u by linarith
    ultimately show ?thesis by (simp add: d_def)
  qed
  have "\<bar>P1 + P2\<bar> \<le> 4 * M + 1" using S dle M by linarith
  then show "\<bar>flr (a * flr (1 - flr w0)) + flr (b * flr w0)\<bar> \<le> 4 * M + 1"
    by (simp add: P1_def P2_def v_def w_def)
  have "\<bar>R - (P1 + P2)\<bar> \<le> \<bar>P1 + P2\<bar> * u53 + eta" unfolding R_def by (rule flr_err)
  also have "\<bar>P1 + P2\<bar> * u53 \<le> (2 * M + 2 * d) * u53"
    using S u(1) by (intro mult_right_mono) simp_all
  also have "(2 * M + 2 * d) * u53 + eta = 2 * (M * u53) + eta + d * (2 * u53)"
    by (simp add: algebra_simps)
  also have "\<dots> \<le> 2 * d + d * 1"
  proof -
    have "d * (2 * u53) \<le> d * 1" using d(3) u(2) by (intro mult_left_mono) simp_all
    moreover have "2 * (M * u53) + eta \<le> 2 * d" using d Mu u by (simp add: d_def)
    ultimately show ?thesis by linarith
  qed
  finally have e3: "\<bar>R - (P1 + P2)\<bar> \<le> 3 * d" by simp
  have "\<bar>a * (v - (1 - w))\<bar> \<le> M * (2 * u53)" using a ev by (rule abs_mult_le)
  then have e4: "\<bar>a * (v - (1 - w))\<bar> \<le> 2 * d" using d(1) by simp
  have "\<bar>b - a\<bar> \<le> 2 * M" using a b by linarith
  then have "\<bar>(b - a) * (w - w0)\<bar> \<le> (2 * M) * (2 * u53)" using ew by (rule abs_mult_le)
  then have e5: "\<bar>(b - a) * (w - w0)\<bar> \<le> 4 * d" using d(1) by simp
  have split: "R - (a * (1 - w0) + b * w0)
                 = (R - (P1 + P2)) + (P1 - a * v) + (P2 - b * w)
                   + a * (v - (1 - w)) + (b - a) * (w - w0)"
    by (simp add: algebra_simps)
  have "\<bar>R - (a * (1 - w0) + b * w0)\<bar> \<le> 11 * d"
    unfolding split using e1 e2 e3 e4 e5 by linarith
  then have "\<bar>R - (a * (1 - w0) + b * w0)\<bar> \<le> 16 * d" using d(3) by linarith
  then show "\<bar>qround a b w0 - (a * (1 - w0) + b * w0)\<bar> \<le> 16 * (M * u53 + eta)"
    by (simp add: qround_def R_def P1_def P2_def v_def w_def d_def)
qed

lemma floor_ceil_range:
  assumes "0 \<le> t" "t \<le> real n - 1"
  shows "0 \<le> \<lfloor>t\<rfloor>" "\<lfloor>t\<rfloor> \<le> \<lceil>t\<rceil>" "\<lceil>t\<rceil> < int n"
    "nat \<lfloor>t\<rfloor> \<le> nat \<lceil>t\<rceil>" "nat \<lceil>t\<rceil> < n"
proof -
  show 1: "0 \<le> \<lfloor>t\<rfloor>" using assms by simp
  show 2: "\<lfloor>t\<rfloor> \<le> \<lceil>t\<rceil>" by (simp add: floor_le_ceiling)
  have "\<lceil>t\<rceil> \<le> \<lceil>real n - 1\<rceil>" using assms(2) by (rule ceiling_mono)
  also have "\<lceil>real n - 1\<rceil> = int n - 1" by simp
  finally show 3: "\<lceil>t\<rceil> < int n" by linarith
  show "nat \<lfloor>t\<rfloor> \<le> nat \<lceil>t\<rceil>" using 2 by (rule nat_mono)
  show "nat \<lceil>t\<rceil> < n" using 1 2 3 by linarith
qed

lemma big_powers: "(2 :: real) ^ 1000 \<le> 2 ^ 1023" "4 * (2 :: real) ^ 1000 + 1 \<le> 2 ^ 1023"
  "(1 :: real) \<le> 2 ^ 1023" "(2 :: real) ^ 53 \<le> 2 ^ 1023"
proof -
  show "(2 :: real) ^ 1000 \<le> 2 ^ 1023" by (rule power_increasing) simp_all
  show "(1 :: real) \<le> 2 ^ 1023" by (rule one_le_power) simp
  show "(2 :: real) ^ 53 \<le> 2 ^ 1023" by (rule power_increasing) simp_all
  have "(1 :: real) \<le> 2 ^ 1000" by (rule one_le_power) simp
  then have "4 * (2 :: real) ^ 1000 + 1 \<le> 2 ^ 3 * 2 ^ 1000" by simp
  also have "\<dots> = 2 ^ 1003" by (simp only: power_add[symmetric]) simp
  also have "\<dots> \<le> 2 ^ 1023" by (rule power_increasing) simp_all
  finally show "4 * (2 :: real) ^ 1000 + 1 \<le> 2 ^ 1023" .
qed

text \<open>
  Between the clamps, at an index within the array and on elements of magnitude at most
  \<open>2^1000\<close>, no operation of \<^verbatim>\<open>quantile\<close> overflows: the result is the rounded
  interpolation \<open>qround\<close>.
\<close>

lemma quantile_qround:
  assumes ne: "xs \<noteq> []"
    and p: "\<not> jle p (Num 0)" "\<not> jge p (Num 1)"
    and idx: "fmul p (Num (real (length xs) - 1)) = Num i"
    and i: "0 \<le> i" "i \<le> real (length xs) - 1"
    and bound: "\<forall>x \<in> set xs. \<bar>x\<bar> \<le> M" and M: "M \<le> 2 ^ 1000"
  shows "quantile xs p
           = Num (qround (xs ! nat \<lfloor>i\<rfloor>) (xs ! nat \<lceil>i\<rceil>) (i - real_of_int \<lfloor>i\<rfloor>))"
proof -
  note r = floor_ceil_range[OF i]
  define a where "a = xs ! nat \<lfloor>i\<rfloor>"
  define b where "b = xs ! nat \<lceil>i\<rceil>"
  define w0 where "w0 = i - real_of_int \<lfloor>i\<rfloor>"
  have w0: "0 \<le> w0" "w0 \<le> 1" unfolding w0_def by linarith+
  have "nat \<lfloor>i\<rfloor> < length xs" using r(4,5) by linarith
  then have a: "\<bar>a\<bar> \<le> M" using bound by (simp add: a_def)
  have b: "\<bar>b\<bar> \<le> M" using bound r(5) by (simp add: b_def)
  note q = qround_parts[OF w0 a b]
  have lo: "arr_at xs (jfloor (Num i)) = Num a"
    using r by (simp add: arr_at_def arr_get_def a_def)
  have hi: "arr_at xs (jceil (Num i)) = Num b"
    using r by (simp add: arr_at_def arr_get_def b_def)
  have fw: "fsub (Num i) (jfloor (Num i)) = Num (flr w0)"
  proof -
    have "\<bar>w0\<bar> \<le> 2 ^ 1023" using w0 big_powers(3) by linarith
    from fl_finite[OF this] show ?thesis by (simp add: fl_ops w0_def)
  qed
  have u: "0 \<le> flr w0" "flr w0 \<le> 1" using flr_unit[OF w0] by simp_all
  have fv: "fsub (Num 1) (Num (flr w0)) = Num (flr (1 - flr w0))"
  proof -
    have "\<bar>1 - flr w0\<bar> \<le> 2 ^ 1023" using u big_powers(3) by linarith
    from fl_finite[OF this] show ?thesis by (simp add: fl_ops)
  qed
  have f1: "fmul (Num a) (Num (flr (1 - flr w0))) = Num (flr (a * flr (1 - flr w0)))"
  proof -
    have "\<bar>a * flr (1 - flr w0)\<bar> \<le> 2 ^ 1023" using q(2) M big_powers(1) by linarith
    from fl_finite[OF this] show ?thesis by (simp add: fl_ops)
  qed
  have f2: "fmul (Num b) (Num (flr w0)) = Num (flr (b * flr w0))"
  proof -
    have "\<bar>b * flr w0\<bar> \<le> 2 ^ 1023" using q(3) M big_powers(1) by linarith
    from fl_finite[OF this] show ?thesis by (simp add: fl_ops)
  qed
  have f3: "fadd (Num (flr (a * flr (1 - flr w0)))) (Num (flr (b * flr w0)))
              = Num (qround a b w0)"
  proof -
    have "\<bar>flr (a * flr (1 - flr w0)) + flr (b * flr w0)\<bar> \<le> 2 ^ 1023"
      using q(4) M big_powers(2) by linarith
    from fl_finite[OF this] show ?thesis by (simp add: fl_ops qround_def)
  qed
  have "quantile xs p = Num (qround a b w0)"
    using ne p unfolding quantile_def Let_def idx lo hi fw fv f1 f2 f3 by simp
  then show ?thesis by (simp add: a_def b_def w0_def)
qed

lemma qinterp_bounds:
  assumes "sorted xs" "0 \<le> t" "t \<le> real (length xs) - 1"
  shows "xs ! nat \<lfloor>t\<rfloor> \<le> qinterp xs t" and "qinterp xs t \<le> xs ! nat \<lceil>t\<rceil>"
proof -
  note r = floor_ceil_range[OF assms(2,3)]
  let ?a = "xs ! nat \<lfloor>t\<rfloor>" and ?b = "xs ! nat \<lceil>t\<rceil>" and ?w = "t - real_of_int \<lfloor>t\<rfloor>"
  have ab: "?a \<le> ?b" using r(4,5) assms(1) by (intro sorted_nth_mono)
  have w: "0 \<le> ?w" "?w \<le> 1" by linarith+
  have eq: "qinterp xs t = ?a + ?w * (?b - ?a)" by (simp add: qinterp_def algebra_simps)
  have "0 \<le> ?w * (?b - ?a)" using w ab by simp
  then show "?a \<le> qinterp xs t" using eq by simp
  have "?w * (?b - ?a) \<le> 1 * (?b - ?a)" using w ab by (intro mult_right_mono) auto
  then show "qinterp xs t \<le> ?b" using eq by simp
qed

lemma qinterp_mono:
  assumes "sorted xs" "0 \<le> s" "s \<le> t" "t \<le> real (length xs) - 1"
  shows "qinterp xs s \<le> qinterp xs t"
proof (cases "\<lceil>s\<rceil> \<le> \<lfloor>t\<rfloor>")
  case True
  have st: "s \<le> real (length xs) - 1" "0 \<le> t" using assms by auto
  note rs = floor_ceil_range[OF assms(2) st(1)]
  note rt = floor_ceil_range[OF st(2) assms(4)]
  have "qinterp xs s \<le> xs ! nat \<lceil>s\<rceil>" using qinterp_bounds(2)[OF assms(1,2) st(1)] .
  also have "\<dots> \<le> xs ! nat \<lfloor>t\<rfloor>"
  proof (rule sorted_nth_mono[OF assms(1)])
    show "nat \<lceil>s\<rceil> \<le> nat \<lfloor>t\<rfloor>" using True by (rule nat_mono)
    show "nat \<lfloor>t\<rfloor> < length xs" using rt(4,5) by linarith
  qed
  also have "\<dots> \<le> qinterp xs t" using qinterp_bounds(1)[OF assms(1) st(2) assms(4)] .
  finally show ?thesis .
next
  case False
  have st: "s \<le> real (length xs) - 1" "0 \<le> t" using assms by auto
  note rt = floor_ceil_range[OF st(2) assms(4)]
  have fl: "\<lfloor>s\<rfloor> \<le> \<lfloor>t\<rfloor>" using assms(3) by (rule floor_mono)
  have "\<lceil>s\<rceil> \<le> \<lfloor>s\<rfloor> + 1" by linarith
  with False fl have feq: "\<lfloor>t\<rfloor> = \<lfloor>s\<rfloor>" and cs: "\<lceil>s\<rceil> = \<lfloor>s\<rfloor> + 1" by linarith+
  have "real_of_int \<lfloor>t\<rfloor> < t" using cs feq assms(3) by linarith
  then have ct: "\<lceil>t\<rceil> = \<lfloor>t\<rfloor> + 1" by linarith
  let ?a = "xs ! nat \<lfloor>s\<rfloor>" and ?b = "xs ! nat (\<lfloor>s\<rfloor> + 1)"
  have ab: "?a \<le> ?b" using rt(4,5) assms(1) unfolding ct feq by (intro sorted_nth_mono)
  have es: "qinterp xs s = ?a + (s - real_of_int \<lfloor>s\<rfloor>) * (?b - ?a)"
    by (simp add: qinterp_def cs algebra_simps)
  have et: "qinterp xs t = ?a + (t - real_of_int \<lfloor>s\<rfloor>) * (?b - ?a)"
    using ct by (simp add: qinterp_def feq algebra_simps)
  have "(s - real_of_int \<lfloor>s\<rfloor>) * (?b - ?a) \<le> (t - real_of_int \<lfloor>s\<rfloor>) * (?b - ?a)"
    using assms(3) ab by (intro mult_right_mono) auto
  then show ?thesis using es et by simp
qed

text \<open>
  The rounded interpolation is within \<open>16 (M u + eta)\<close> of the exact one, where \<open>u = 2^-53\<close>
  is the unit roundoff and \<open>eta = 2^-1075\<close> half the smallest subnormal number.
\<close>

lemma quantile_near_qinterp:
  assumes ne: "xs \<noteq> []"
    and p: "\<not> jle p (Num 0)" "\<not> jge p (Num 1)"
    and idx: "fmul p (Num (real (length xs) - 1)) = Num i"
    and i: "0 \<le> i" "i \<le> real (length xs) - 1"
    and bound: "\<forall>x \<in> set xs. \<bar>x\<bar> \<le> M" and M: "M \<le> 2 ^ 1000"
  shows "\<exists>v. quantile xs p = Num v \<and> \<bar>v - qinterp xs i\<bar> \<le> 16 * (M * u53 + eta)"
proof -
  note r = floor_ceil_range[OF i]
  have w0: "0 \<le> i - real_of_int \<lfloor>i\<rfloor>" "i - real_of_int \<lfloor>i\<rfloor> \<le> 1" by linarith+
  have "nat \<lfloor>i\<rfloor> < length xs" using r(4,5) by linarith
  then have a: "\<bar>xs ! nat \<lfloor>i\<rfloor>\<bar> \<le> M" using bound by simp
  have b: "\<bar>xs ! nat \<lceil>i\<rceil>\<bar> \<le> M" using bound r(5) by simp
  show ?thesis
    using quantile_qround[OF ne p idx i bound M] qround_parts(1)[OF w0 a b]
    by (simp add: qinterp_def)
qed

text \<open>The index \<open>p * (n - 1)\<close> of \<^verbatim>\<open>quantile\<close> for \<open>0 \<le> p \<le> 1\<close> and \<open>n \<le> 2^53\<close>.\<close>

lemma quantile_index:
  assumes "0 \<le> a" "a \<le> 1" "xs \<noteq> []" "length xs \<le> 2 ^ 53"
  shows "fmul (Num a) (Num (real (length xs) - 1)) = Num (flr (a * (real (length xs) - 1)))"
    and "0 \<le> flr (a * (real (length xs) - 1))"
    and "flr (a * (real (length xs) - 1)) \<le> real (length xs) - 1"
proof -
  define m where "m = length xs - 1"
  have m: "real (length xs) - 1 = real m" using assms(3) by (cases xs) (simp_all add: m_def)
  have m53: "m \<le> 2 ^ 53 - 1" using assms(4) by (simp add: m_def)
  have rm: "real m \<le> 2 ^ 53"
  proof -
    have "real m \<le> real (2 ^ 53 - 1 :: nat)" using m53 by (simp only: of_nat_le_iff)
    then show ?thesis by simp
  qed
  have x: "0 \<le> a * real m" "a * real m \<le> real m"
    using assms(1,2) by (simp_all add: mult_left_le_one_le)
  have "\<bar>a * real m\<bar> \<le> 2 ^ 1023" using x rm big_powers(4) by linarith
  from fl_finite[OF this] show "fmul (Num a) (Num (real (length xs) - 1))
      = Num (flr (a * (real (length xs) - 1)))"
    by (simp add: fl_ops m)
  show "0 \<le> flr (a * (real (length xs) - 1))" unfolding m using x(1) by (rule flr_nonneg)
  have "\<bar>real m\<bar> \<le> 2 ^ 1023" using rm big_powers(4) by linarith
  from fl_finite[OF this] fl_of_nat[OF m53] have "flr (real m) = real m" by simp
  then show "flr (a * (real (length xs) - 1)) \<le> real (length xs) - 1"
    unfolding m using flr_mono[OF x(2)] by simp
qed

lemma quantile_tol_eq: "16 * (M * u53 + eta) = quantile_tol M"
proof -
  have "(2 :: real) ^ 53 = 16 * 2 ^ 49" by simp
  moreover have "(2 :: real) ^ 1075 = 16 * 2 ^ 1071"
  proof -
    have "(2 :: real) ^ 4 * 2 ^ 1071 = 2 ^ 1075" by (simp only: power_add[symmetric]) simp
    then show ?thesis by simp
  qed
  ultimately show ?thesis
    by (simp add: quantile_tol_def u53_def eta_def algebra_simps del: power_numeral)
qed

lemma quantile_tol_nonneg: "0 \<le> M \<Longrightarrow> 0 \<le> quantile_tol M"
  by (simp add: quantile_tol_def)

lemma sorted_nth_range:
  assumes "sorted xs" "k < length xs"
  shows "hd xs \<le> xs ! k" "xs ! k \<le> last xs"
proof -
  have ne: "xs \<noteq> []" using assms(2) by auto
  have "xs ! 0 \<le> xs ! k" using assms by (intro sorted_nth_mono) simp_all
  then show "hd xs \<le> xs ! k" using hd_nth0[OF ne] by simp
  have "xs ! k \<le> xs ! (length xs - 1)" using assms by (intro sorted_nth_mono) simp_all
  then show "xs ! k \<le> last xs" using last_nth[OF ne] by simp
qed

text \<open>
  For every finite \<open>p\<close> the result of \<^verbatim>\<open>quantile\<close> on an ascending array is within the
  rounding tolerance of the range of the array.
\<close>

lemma quantile_range:
  assumes ne: "xs \<noteq> []" and srt: "sorted xs" and len: "length xs \<le> 2 ^ 53"
    and bound: "\<forall>x \<in> set xs. \<bar>x\<bar> \<le> M" and M: "M \<le> 2 ^ 1000"
  shows "\<exists>v. quantile xs (Num p) = Num v
           \<and> hd xs - quantile_tol M \<le> v \<and> v \<le> last xs + quantile_tol M"
proof -
  have "\<bar>hd xs\<bar> \<le> M" using bound ne by simp
  then have M0: "0 \<le> M" by linarith
  note t = quantile_tol_nonneg[OF M0]
  have hl: "hd xs \<le> last xs"
    using sorted_nth_range(2)[OF srt, of 0] ne hd_nth0[OF ne] by simp
  consider "p \<le> 0" | "1 \<le> p" | "0 < p" "p < 1" by linarith
  then show ?thesis
  proof cases
    case 1
    then have "quantile xs (Num p) = Num (hd xs)" using quantile_le0[OF ne, of "Num p"] by simp
    then show ?thesis using t hl by simp
  next
    case 2
    then have "quantile xs (Num p) = Num (last xs)"
      using quantile_ge1[OF ne, of "Num p"] by (simp add: jge_def)
    then show ?thesis using t hl by simp
  next
    case 3
    then have p: "\<not> jle (Num p) (Num 0)" "\<not> jge (Num p) (Num 1)" by (simp_all add: jge_def)
    have p01: "0 \<le> p" "p \<le> 1" using 3 by simp_all
    note i = quantile_index[OF p01 ne len]
    from quantile_near_qinterp[OF ne p i bound M] obtain v where
      v: "quantile xs (Num p) = Num v"
         "\<bar>v - qinterp xs (flr (p * (real (length xs) - 1)))\<bar> \<le> quantile_tol M"
      unfolding quantile_tol_eq by blast
    note r = floor_ceil_range[OF i(2,3)]
    have lo: "nat \<lfloor>flr (p * (real (length xs) - 1))\<rfloor> < length xs" using r(4,5) by linarith
    note b = qinterp_bounds[OF srt i(2,3)]
    have "hd xs \<le> qinterp xs (flr (p * (real (length xs) - 1)))"
      using sorted_nth_range(1)[OF srt lo] b(1) by linarith
    moreover have "qinterp xs (flr (p * (real (length xs) - 1))) \<le> last xs"
      using sorted_nth_range(2)[OF srt r(5)] b(2) by linarith
    ultimately show ?thesis using v by (intro exI[of _ v]) (simp, linarith)
  qed
qed

lemma len32: "length xs < 2 ^ 32 \<Longrightarrow> length xs \<le> 2 ^ 53" "length xs < 2 ^ 32 \<Longrightarrow> length xs \<le> 2 ^ 53 - 1"
  by simp_all

text \<open>
  Claim C10, as amended. On a non-empty array \<^verbatim>\<open>quantile\<close> returns the first element for
  \<open>p \<le> 0\<close> and the last element for \<open>p \<ge> 1\<close>, never \<open>NaN\<close>; on a non-empty ascending
  array \<^verbatim>\<open>computeVaR\<close> with a confidence of at least 1 returns the negated sample minimum;
  and for every finite \<open>p\<close> the result on an ascending array (shorter than \<open>2^32\<close>, the
  bound of a JavaScript array, with elements of magnitude at most \<open>M \<le> 2^1000\<close>) is a
  finite number between the first element minus \<open>quantile_tol M\<close> and the last element plus
  \<open>quantile_tol M\<close>, where \<open>quantile_tol M = M / 2^49 + 2^-1071\<close> bounds the rounding of the
  interpolation. Without the tolerance the last part fails, as the array \<open>[1.1, 1.1]\<close>
  below shows.
\<close>

theorem quantile_clamps:
  assumes "sortedArr \<noteq> []"
  shows "(jle p (Num 0) \<longrightarrow> quantile sortedArr p = Num (hd sortedArr))
       \<and> (jge p (Num 1) \<longrightarrow> quantile sortedArr p = Num (last sortedArr))
       \<and> (sorted sortedArr \<and> jge confidence (Num 1) \<longrightarrow>
            computeVaR sortedArr confidence = Num (- Min (set sortedArr)))
       \<and> (sorted sortedArr \<and> length sortedArr < 2 ^ 32
            \<and> (\<forall>x \<in> set sortedArr. \<bar>x\<bar> \<le> M) \<and> M \<le> 2 ^ 1000 \<longrightarrow>
            (\<exists>v. quantile sortedArr (Num q) = Num v
                \<and> hd sortedArr - quantile_tol M \<le> v \<and> v \<le> last sortedArr + quantile_tol M))"
proof -
  have "computeVaR sortedArr confidence = Num (- Min (set sortedArr))"
    if "sorted sortedArr" and "jge confidence (Num 1)"
    using quantile_le0[OF assms fsub_one_nonpos[OF that(2)]] sorted_hd_Min[OF that(1) assms]
    by (simp add: computeVaR_def)
  moreover have "\<exists>v. quantile sortedArr (Num q) = Num v
                \<and> hd sortedArr - quantile_tol M \<le> v \<and> v \<le> last sortedArr + quantile_tol M"
    if "sorted sortedArr" and "length sortedArr < 2 ^ 32"
      and "\<forall>x \<in> set sortedArr. \<bar>x\<bar> \<le> M" and "M \<le> 2 ^ 1000"
    using quantile_range[OF assms that(1) len32(1)[OF that(2)] that(3,4)] .
  ultimately show ?thesis
    using quantile_le0[OF assms, of p] quantile_ge1[OF assms, of p] by blast
qed

theorem quantile_clamps_witness:
  "quantile [1, 2, 4] (Num (- 1)) = Num 1 \<and> quantile [1, 2, 4] (Num 3) = Num 4
   \<and> computeVaR [1, 2, 4] (Num 1) = Num (- 1)
   \<and> (\<exists>v. quantile [1, 2, 4] (Num (1 / 2)) = Num v
         \<and> 1 - quantile_tol 4 \<le> v \<and> v \<le> 4 + quantile_tol 4)"
  using quantile_clamps[of "[1, 2, 4]" "Num (- 1)" "Num 1" 4 "1 / 2"]
    quantile_clamps[of "[1, 2, 4]" "Num 3" "Num 1" 4 "1 / 2"]
  by (simp add: jge_def)

text \<open>
  The array \<open>[1.1, 1.1]\<close> at \<open>p = 0.05\<close>: the index is \<open>0.05\<close>, the weights are \<open>0.05\<close> and
  the rounded \<open>0.95\<close>, the two rounded products add up to \<open>1.0999999999999999\<close>, one unit in
  the last place below both elements.
\<close>

theorem quantile_below_first_counterexample:
  "quantile [dbl 1.1, dbl 1.1] (fl 0.05) = Num (4953959590107545 / 2 ^ 52)
   \<and> dbl 1.1 = 4953959590107546 / 2 ^ 52
   \<and> jlt (quantile [dbl 1.1, dbl 1.1] (fl 0.05)) (Num (hd [dbl 1.1, dbl 1.1]))"
  by (simp add: quantile_eval)

subsection \<open>VaR and CVaR\<close>

lemma fsub_index_Num:
  assumes "xs \<noteq> []"
    and "jfloor (fmul (fsub (Num 1) confidence) (Num (real (length xs)))) = Num 0"
  shows "\<exists>a. fsub (Num 1) confidence = Num a"
proof (cases "fsub (Num 1) confidence")
  case (Num a)
  then show ?thesis by simp
next
  case PosInf
  then show ?thesis using assms by (simp add: fmul_def inf_of_def)
next
  case NegInf
  then show ?thesis using assms by (simp add: fmul_def inf_of_def)
next
  case NaN
  then show ?thesis using assms by (simp add: fmul_def)
qed

text \<open>
  Claim C2, as amended. On a non-empty sample whose VaR index
  \<open>\<lfloor>(1 - confidence) * n\<rfloor>\<close>, as the code computes it, is 0, \<^verbatim>\<open>computeCVaR\<close> returns the
  negated first element, the negated minimum of an ascending sample. \<^verbatim>\<open>computeVaR\<close>
  returns the same value when the confidence is at least 1, where \<^verbatim>\<open>quantile\<close> clamps to
  the first element. Otherwise it returns the negated interpolation between the two
  smallest elements, which is another number in general (the sample \<open>[0, 1]\<close> below); on
  an ascending sample (shorter than \<open>2^32\<close>,
  elements of magnitude at most \<open>M \<le> 2^1000\<close>) it exceeds the value of \<^verbatim>\<open>computeCVaR\<close> by
  no more than the rounding tolerance \<open>quantile_tol M\<close>.
\<close>

theorem cvar_index_zero:
  assumes "sorted_arr \<noteq> []"
    and "jfloor (fmul (fsub (Num 1) confidence) (Num (real (length sorted_arr)))) = Num 0"
  shows "computeCVaR sorted_arr confidence = Some (Num (- hd sorted_arr))
       \<and> (sorted sorted_arr \<longrightarrow>
            computeCVaR sorted_arr confidence = Some (Num (- Min (set sorted_arr))))
       \<and> (jge confidence (Num 1) \<longrightarrow>
            computeCVaR sorted_arr confidence = Some (computeVaR sorted_arr confidence))
       \<and> (sorted sorted_arr \<and> length sorted_arr < 2 ^ 32
            \<and> (\<forall>x \<in> set sorted_arr. \<bar>x\<bar> \<le> M) \<and> M \<le> 2 ^ 1000 \<longrightarrow>
            (\<exists>v. computeVaR sorted_arr confidence = Num v
                \<and> v \<le> - hd sorted_arr + quantile_tol M))"
proof -
  have c: "computeCVaR sorted_arr confidence = Some (Num (- hd sorted_arr))"
    using assms hd_nth0[OF assms(1)] by (simp add: computeCVaR_def Let_def arr_get_def)
  have e: "computeVaR sorted_arr confidence = Num (- hd sorted_arr)" if "jge confidence (Num 1)"
    using quantile_le0[OF assms(1) fsub_one_nonpos[OF that]] by (simp add: computeVaR_def)
  have r: "\<exists>v. computeVaR sorted_arr confidence = Num v \<and> v \<le> - hd sorted_arr + quantile_tol M"
    if "sorted sorted_arr" and "length sorted_arr < 2 ^ 32"
      and "\<forall>x \<in> set sorted_arr. \<bar>x\<bar> \<le> M" and "M \<le> 2 ^ 1000"
  proof -
    note h = that
    obtain a where a: "fsub (Num 1) confidence = Num a"
      using fsub_index_Num[OF assms] by blast
    obtain v where v: "quantile sorted_arr (Num a) = Num v" "hd sorted_arr - quantile_tol M \<le> v"
      using quantile_range[OF assms(1) h(1) len32(1)[OF h(2)] h(3,4), of a] by blast
    have "computeVaR sorted_arr confidence = Num (- v)"
      by (simp add: computeVaR_def a v(1))
    moreover have "- v \<le> - hd sorted_arr + quantile_tol M" using v(2) by simp
    ultimately show ?thesis by blast
  qed
  show ?thesis using c e r sorted_hd_Min[OF _ assms(1)] by auto
qed

theorem cvar_index_zero_witness:
  "computeCVaR [- 2, 3, 5] (fl 0.95) = Some (Num 2)
   \<and> computeCVaR [- 2, 3, 5] (Num 1) = Some (computeVaR [- 2, 3, 5] (Num 1))
   \<and> (\<exists>v. computeVaR [- 2, 3, 5] (fl 0.95) = Num v \<and> v \<le> 2 + quantile_tol 5)"
proof -
  have ne: "[- 2, 3, 5 :: real] \<noteq> []" by simp
  have i1: "jfloor (fmul (fsub (Num 1) (fl 0.95)) (Num (real (length [- 2, 3, 5 :: real])))) = Num 0"
    by (simp add: fl_ops fl_tab)
  have i2: "jfloor (fmul (fsub (Num 1) (Num 1)) (Num (real (length [- 2, 3, 5 :: real])))) = Num 0"
    by (simp add: fl_ops)
  have h: "- hd [- 2, 3, 5 :: real] = 2" and j: "jge (Num 1) (Num 1)"
    and s: "sorted [- 2, 3, 5 :: real] \<and> length [- 2, 3, 5 :: real] < 2 ^ 32
            \<and> (\<forall>x \<in> set [- 2, 3, 5 :: real]. \<bar>x\<bar> \<le> 5) \<and> (5 :: real) \<le> 2 ^ 1000"
    by (simp_all add: jge_def)
  from cvar_index_zero[OF ne i1, of 5] cvar_index_zero[OF ne i2, of 5] j s show ?thesis
    unfolding h by blast
qed

text \<open>
  On the ascending sample \<open>[0, 1]\<close> at confidence \<open>0.95\<close> the VaR index is 0,
  \<^verbatim>\<open>computeCVaR\<close> returns \<open>0\<close> and \<^verbatim>\<open>computeVaR\<close> the interpolated
  \<open>-0.050000000000000044\<close>.
\<close>

theorem cvar_equals_var_counterexample:
  "jfloor (fmul (fsub (Num 1) (fl 0.95)) (Num (real (length [0, 1 :: real])))) = Num 0
   \<and> computeCVaR [0, 1] (fl 0.95) = Some (Num 0)
   \<and> computeVaR [0, 1] (fl 0.95) = Num (- (225179981368525 / 2 ^ 52))"
  by (simp add: computeCVaR_def quantile_eval)

subsection \<open>The two VaR levels of the tail metrics\<close>

lemma alpha_values:
  "fsub (Num 1) (fl 0.95) = Num (225179981368525 / 2 ^ 52)"
  "fsub (Num 1) (fl 0.99) = Num (45035996273705 / 2 ^ 52)"
  by (simp_all add: fl_ops fl_tab)

lemma var_pair_rounded:
  assumes ne: "xs \<noteq> []" and srt: "sorted xs" and len: "length xs \<le> 2 ^ 53"
    and bound: "\<forall>x \<in> set xs. \<bar>x\<bar> \<le> M" and M: "M \<le> 2 ^ 1000"
  shows "\<exists>v95 v99. computeVaR xs (fl 0.95) = Num v95 \<and> computeVaR xs (fl 0.99) = Num v99
           \<and> v95 \<le> v99 + 2 * quantile_tol M"
proof -
  define a95 :: real where "a95 = 225179981368525 / 2 ^ 52"
  define a99 :: real where "a99 = 45035996273705 / 2 ^ 52"
  define n1 where "n1 = real (length xs) - 1"
  have n1: "0 \<le> n1" using ne by (cases xs) (simp_all add: n1_def)
  have a: "0 \<le> a95" "a95 \<le> 1" "0 \<le> a99" "a99 \<le> 1" "a99 \<le> a95"
    by (simp_all add: a95_def a99_def)
  have p95: "\<not> jle (Num a95) (Num 0)" "\<not> jge (Num a95) (Num 1)"
    and p99: "\<not> jle (Num a99) (Num 0)" "\<not> jge (Num a99) (Num 1)"
    by (simp_all add: a95_def a99_def jge_def)
  note i95 = quantile_index[OF a(1,2) ne len, folded n1_def]
  note i99 = quantile_index[OF a(3,4) ne len, folded n1_def]
  have le: "flr (a99 * n1) \<le> flr (a95 * n1)"
    using a(5) n1 by (intro flr_mono mult_right_mono)
  from quantile_near_qinterp[OF ne p95 i95[unfolded n1_def] bound M] obtain r95 where
    r95: "quantile xs (Num a95) = Num r95" "\<bar>r95 - qinterp xs (flr (a95 * n1))\<bar> \<le> quantile_tol M"
    unfolding quantile_tol_eq n1_def by blast
  from quantile_near_qinterp[OF ne p99 i99[unfolded n1_def] bound M] obtain r99 where
    r99: "quantile xs (Num a99) = Num r99" "\<bar>r99 - qinterp xs (flr (a99 * n1))\<bar> \<le> quantile_tol M"
    unfolding quantile_tol_eq n1_def by blast
  have top: "flr (a95 * n1) \<le> real (length xs) - 1" using i95(3) by (simp add: n1_def)
  have "qinterp xs (flr (a99 * n1)) \<le> qinterp xs (flr (a95 * n1))"
    using srt i99(2) le top by (rule qinterp_mono)
  then have "- r95 \<le> - r99 + 2 * quantile_tol M" using r95(2) r99(2) by linarith
  moreover have "computeVaR xs (fl 0.95) = Num (- r95)" "computeVaR xs (fl 0.99) = Num (- r99)"
    unfolding computeVaR_def Let_def alpha_values
    using r95(1) r99(1) by (simp_all add: a95_def a99_def)
  ultimately show ?thesis by blast
qed

lemma cvar_loop_returns:
  assumes "k \<le> 2 ^ 53 - 1" and "i \<le> k"
  shows "\<exists>r. cvar_loop xs (Num (real k)) (Num (real i)) s = Some r"
  using assms(2)
proof (induction "k - i" arbitrary: i s)
  case 0
  then have "i = k" by simp
  then show ?case by (subst cvar_loop.simps) simp
next
  case (Suc d)
  then have lt: "i < k" and d: "d = k - (i + 1)" and le: "i + 1 \<le> k" by simp_all
  have "i + 1 \<le> 2 ^ 53 - 1" using le assms(1) by linarith
  from fl_of_nat[OF this] have step: "fadd (Num (real i)) (Num 1) = Num (real (i + 1))"
    by (simp add: fl_ops add.commute)
  have "cvar_loop xs (Num (real k)) (Num (real i)) s
          = cvar_loop xs (Num (real k)) (Num (real (i + 1))) (fadd s (arr_at xs (Num (real i))))"
    using lt by (subst cvar_loop.simps) (simp add: step)
  then show ?case using Suc.hyps(1)[OF d le] by simp
qed

lemma computeCVaR_returns:
  assumes a: "0 \<le> a" "a \<le> 1" and len: "length xs < 2 ^ 32"
    and c: "fsub (Num 1) confidence = Num a"
  shows "\<exists>r. computeCVaR xs confidence = Some r"
proof -
  define n where "n = length xs"
  have n53: "n \<le> 2 ^ 53 - 1" using len by (simp add: n_def)
  have rn: "real n \<le> 2 ^ 53"
  proof -
    have "real n \<le> real (2 ^ 53 - 1 :: nat)" using n53 by (simp only: of_nat_le_iff)
    then show ?thesis by simp
  qed
  have x: "0 \<le> a * real n" "a * real n \<le> real n"
    using a by (simp_all add: mult_left_le_one_le)
  have "\<bar>a * real n\<bar> \<le> 2 ^ 1023" using x rn big_powers(4) by linarith
  from fl_finite[OF this] have f: "fmul (Num a) (Num (real n)) = Num (flr (a * real n))"
    by (simp add: fl_ops)
  have lo: "0 \<le> flr (a * real n)" using x(1) by (rule flr_nonneg)
  have "\<bar>real n\<bar> \<le> 2 ^ 1023" using rn big_powers(4) by linarith
  from fl_finite[OF this] fl_of_nat[OF n53] have "flr (real n) = real n" by simp
  then have hi: "flr (a * real n) \<le> real n" using flr_mono[OF x(2)] by simp
  define k where "k = nat \<lfloor>flr (a * real n)\<rfloor>"
  have k: "real_of_int \<lfloor>flr (a * real n)\<rfloor> = real k" using lo by (simp add: k_def)
  have "\<lfloor>flr (a * real n)\<rfloor> \<le> int n" using hi by (simp add: floor_le_iff)
  then have kn: "k \<le> 2 ^ 53 - 1" using n53 by (simp add: k_def)
  obtain r where r: "cvar_loop xs (Num (real k)) (Num (real 0)) (Num 0) = Some r"
    using cvar_loop_returns[OF kn, of 0] by blast
  show ?thesis
    unfolding computeCVaR_def Let_def c n_def[symmetric] f
    using r by (simp add: k)
qed

lemma alpha_unit:
  "0 \<le> (225179981368525 / 2 ^ 52 :: real)" "(225179981368525 / 2 ^ 52 :: real) \<le> 1"
  "0 \<le> (45035996273705 / 2 ^ 52 :: real)" "(45035996273705 / 2 ^ 52 :: real) \<le> 1"
  by simp_all

lemma computeTailMetrics_returns:
  assumes "length data < 2 ^ 32"
  shows "\<exists>t. computeTailMetrics data = Some t
           \<and> tm_var95 t = computeVaR (sort data) (fl 0.95)
           \<and> tm_var99 t = computeVaR (sort data) (fl 0.99)"
proof -
  have len: "length (sort data) < 2 ^ 32" using assms by simp
  obtain r95 where r95: "computeCVaR (sort data) (fl 0.95) = Some r95"
    using computeCVaR_returns[OF alpha_unit(1,2) len alpha_values(1)] by blast
  obtain r99 where r99: "computeCVaR (sort data) (fl 0.99) = Some r99"
    using computeCVaR_returns[OF alpha_unit(3,4) len alpha_values(2)] by blast
  show ?thesis unfolding computeTailMetrics_def Let_def r95 r99 by simp
qed

lemma quantile_tol_twice: "2 * quantile_tol M = M / 2 ^ 48 + 1 / 2 ^ 1070"
proof -
  have "(2 :: real) ^ 49 = 2 * 2 ^ 48" by simp
  moreover have "(2 :: real) ^ 1071 = 2 * 2 ^ 1070"
  proof -
    have "(2 :: real) ^ 1 * 2 ^ 1070 = 2 ^ 1071" by (simp only: power_add[symmetric]) simp
    then show ?thesis by simp
  qed
  ultimately show ?thesis by (simp add: quantile_tol_def del: power_numeral)
qed

text \<open>
  Claim C3, as amended. On a non-empty ascending sample (shorter than \<open>2^32\<close>, elements of
  magnitude at most \<open>M \<le> 2^1000\<close>) \<^verbatim>\<open>computeTailMetrics\<close> returns, and its fields \<open>var95\<close>
  and \<open>var99\<close>, the values of \<^verbatim>\<open>computeVaR\<close> at \<open>0.95\<close> and \<open>0.99\<close>, are finite numbers
  with \<open>var95 \<le> var99 + M / 2^48 + 2^-1070\<close> as signed values: the 99% value is at least
  the 95% value up to the rounding of the two interpolations. When the 95% value is not
  negative, the magnitudes are ordered the same way, up to the same tolerance. In general
  the magnitudes are not ordered (the sample \<open>[0, 100]\<close> below), and without the tolerance
  the signed values are not either (\<open>var_signed_rounding_example\<close>).
\<close>

theorem var99_ge_var95_rounded:
  assumes "sorted_arr \<noteq> []" and "sorted sorted_arr" and "length sorted_arr < 2 ^ 32"
    and "\<forall>x \<in> set sorted_arr. \<bar>x\<bar> \<le> M" and "M \<le> 2 ^ 1000"
  shows "\<exists>t v95 v99. computeTailMetrics sorted_arr = Some t
           \<and> tm_var95 t = Num v95 \<and> tm_var99 t = Num v99
           \<and> computeVaR sorted_arr (fl 0.95) = Num v95
           \<and> computeVaR sorted_arr (fl 0.99) = Num v99
           \<and> v95 \<le> v99 + (M / 2 ^ 48 + 1 / 2 ^ 1070)
           \<and> (0 \<le> v95 \<longrightarrow> \<bar>v95\<bar> \<le> \<bar>v99\<bar> + (M / 2 ^ 48 + 1 / 2 ^ 1070))"
proof -
  have s: "sort sorted_arr = sorted_arr" using assms(2) by (rule sorted_sort_id)
  obtain t where t: "computeTailMetrics sorted_arr = Some t"
    "tm_var95 t = computeVaR sorted_arr (fl 0.95)" "tm_var99 t = computeVaR sorted_arr (fl 0.99)"
    using computeTailMetrics_returns[OF assms(3)] unfolding s by blast
  obtain v95 v99 where v: "computeVaR sorted_arr (fl 0.95) = Num v95"
    "computeVaR sorted_arr (fl 0.99) = Num v99" "v95 \<le> v99 + 2 * quantile_tol M"
    using var_pair_rounded[OF assms(1,2) len32(1)[OF assms(3)] assms(4,5)] by blast
  have "\<bar>v95\<bar> \<le> \<bar>v99\<bar> + 2 * quantile_tol M" if "0 \<le> v95"
    using that v(3) by linarith
  then show ?thesis using t v unfolding quantile_tol_twice by auto
qed

theorem var99_ge_var95_rounded_witness:
  "\<exists>t. computeTailMetrics [- 3, 1] = Some t
      \<and> tm_var95 t = Num (6305039478318694 / 2 ^ 51)
      \<and> tm_var99 t = Num (6665327448508334 / 2 ^ 51)
      \<and> (6305039478318694 / 2 ^ 51 :: real) \<le> 6665327448508334 / 2 ^ 51 + (3 / 2 ^ 48 + 1 / 2 ^ 1070)
      \<and> \<bar>6305039478318694 / 2 ^ 51 :: real\<bar>
          \<le> \<bar>6665327448508334 / 2 ^ 51\<bar> + (3 / 2 ^ 48 + 1 / 2 ^ 1070)"
proof -
  have v: "computeVaR [- 3, 1] (fl 0.95) = Num (6305039478318694 / 2 ^ 51)"
    "computeVaR [- 3, 1] (fl 0.99) = Num (6665327448508334 / 2 ^ 51)"
    by (simp_all add: quantile_eval)
  have h: "[- 3, 1 :: real] \<noteq> []" "sorted [- 3, 1 :: real]" "length [- 3, 1 :: real] < 2 ^ 32"
    "\<forall>x \<in> set [- 3, 1 :: real]. \<bar>x\<bar> \<le> 3" "(3 :: real) \<le> 2 ^ 1000"
    by simp_all
  from var99_ge_var95_rounded[OF h] obtain t v95 v99 where
    t: "computeTailMetrics [- 3, 1] = Some t" "tm_var95 t = Num v95" "tm_var99 t = Num v99"
      "computeVaR [- 3, 1] (fl 0.95) = Num v95" "computeVaR [- 3, 1] (fl 0.99) = Num v99"
      "v95 \<le> v99 + (3 / 2 ^ 48 + 1 / 2 ^ 1070)"
      "0 \<le> v95 \<longrightarrow> \<bar>v95\<bar> \<le> \<bar>v99\<bar> + (3 / 2 ^ 48 + 1 / 2 ^ 1070)"
    by blast
  have e: "v95 = 6305039478318694 / 2 ^ 51" "v99 = 6665327448508334 / 2 ^ 51"
    using t(4,5) v by simp_all
  have "0 \<le> v95" unfolding e(1) by simp
  then have "\<bar>v95\<bar> \<le> \<bar>v99\<bar> + (3 / 2 ^ 48 + 1 / 2 ^ 1070)" using t(7) by blast
  then show ?thesis using t(1,2,3,6) unfolding e by blast
qed

text \<open>
  On the ascending sample \<open>[0, 100]\<close> the 95% value is \<open>-5.000000000000004\<close> and the 99%
  value is \<open>-1.0000000000000009\<close>: the magnitude of the 99% value is the smaller one. These
  are the \<open>var95\<close> and \<open>var99\<close> fields of \<^verbatim>\<open>computeTailMetrics\<close>.
\<close>

theorem var_magnitude_counterexample:
  "computeVaR [0, 100] (fl 0.95) = Num (- (5629499534213125 / 2 ^ 50))
   \<and> computeVaR [0, 100] (fl 0.99) = Num (- (1125899906842625 / 2 ^ 50))
   \<and> \<not> jle (jabs (computeVaR [0, 100] (fl 0.95))) (jabs (computeVaR [0, 100] (fl 0.99)))"
  by (simp add: quantile_eval)

lemma tail_metrics_0_100:
  "\<exists>t. computeTailMetrics [0, 100] = Some t
      \<and> tm_var95 t = Num (- (5629499534213125 / 2 ^ 50))
      \<and> tm_var99 t = Num (- (1125899906842625 / 2 ^ 50))"
proof -
  have v: "computeVaR [0, 100] (fl 0.95) = Num (- (5629499534213125 / 2 ^ 50))"
    "computeVaR [0, 100] (fl 0.99) = Num (- (1125899906842625 / 2 ^ 50))"
    by (simp_all add: quantile_eval)
  have c: "computeCVaR [0, 100] (fl 0.95) = Some (Num 0)"
    "computeCVaR [0, 100] (fl 0.99) = Some (Num 0)"
    by (simp_all add: computeCVaR_def Let_def fl_ops fl_tab arr_get_def)
  have s: "sort [0, 100 :: real] = [0, 100]" by simp
  show ?thesis unfolding computeTailMetrics_def Let_def s v c by simp
qed

text \<open>
  Rounding can also reverse the signed values. On the ascending sample
  \<open>[-2.1, -2.1, -1.1]\<close> the 95% value is \<open>2.1\<close> and the 99% value, an interpolation between
  the two equal smallest elements, is \<open>2.0999999999999996\<close>.
\<close>

lemma var_signed_rounding_example:
  "computeVaR [- dbl 2.1, - dbl 2.1, - dbl 1.1] (fl 0.95) = Num (dbl 2.1)
   \<and> computeVaR [- dbl 2.1, - dbl 2.1, - dbl 1.1] (fl 0.99) = Num (4728779608739020 / 2 ^ 51)
   \<and> dbl 2.1 = 4728779608739021 / 2 ^ 51"
  by (simp add: quantile_eval)

subsection \<open>The percentiles of the summary\<close>

lemma summary_fields:
  assumes "data \<noteq> []"
  shows "\<exists>s. computeSummaryStats data = Inr s
           \<and> ss_min s = arr_get (sort data) 0
           \<and> ss_max s = arr_get (sort data) (int (length data) - 1)
           \<and> ss_p5 s = quantile (sort data) (fl 0.05)
           \<and> ss_p25 s = quantile (sort data) (fl 0.25)
           \<and> ss_median s = quantile (sort data) (fl 0.5)
           \<and> ss_p75 s = quantile (sort data) (fl 0.75)
           \<and> ss_p95 s = quantile (sort data) (fl 0.95)"
  using assms by (simp add: computeSummaryStats_def Let_def)

text \<open>
  Up to the rounding tolerance the chain of the percentiles does hold: every percentile is within
  \<open>quantile_tol M\<close> of the exact interpolation at its rounded index, and the exact
  interpolation is monotone in the index and stays within the sample range.
\<close>

lemma quantile_near:
  assumes ne: "xs \<noteq> []" and len: "length xs \<le> 2 ^ 53"
    and bound: "\<forall>x \<in> set xs. \<bar>x\<bar> \<le> M" and M: "M \<le> 2 ^ 1000"
    and p: "0 < p" "p < 1"
  shows "\<exists>v. quantile xs (Num p) = Num v
           \<and> \<bar>v - qinterp xs (flr (p * (real (length xs) - 1)))\<bar> \<le> quantile_tol M"
proof -
  have q: "\<not> jle (Num p) (Num 0)" "\<not> jge (Num p) (Num 1)" using p by (simp_all add: jge_def)
  have p01: "0 \<le> p" "p \<le> 1" using p by simp_all
  note i = quantile_index[OF p01 ne len]
  from quantile_near_qinterp[OF ne q i bound M] show ?thesis unfolding quantile_tol_eq .
qed

lemma qinterp_index_mono:
  assumes ne: "xs \<noteq> []" and srt: "sorted xs" and len: "length xs \<le> 2 ^ 53"
    and p: "0 \<le> p" "p \<le> q" "q \<le> 1"
  shows "qinterp xs (flr (p * (real (length xs) - 1))) \<le> qinterp xs (flr (q * (real (length xs) - 1)))"
    and "hd xs \<le> qinterp xs (flr (p * (real (length xs) - 1)))"
    and "qinterp xs (flr (q * (real (length xs) - 1))) \<le> last xs"
proof -
  have n1: "0 \<le> real (length xs) - 1" using ne by (cases xs) simp_all
  have p1: "p \<le> 1" and q0: "0 \<le> q" using p by simp_all
  note ip = quantile_index[OF p(1) p1 ne len]
  note iq = quantile_index[OF q0 p(3) ne len]
  have le: "flr (p * (real (length xs) - 1)) \<le> flr (q * (real (length xs) - 1))"
    using p(2) n1 by (intro flr_mono mult_right_mono)
  show "qinterp xs (flr (p * (real (length xs) - 1))) \<le> qinterp xs (flr (q * (real (length xs) - 1)))"
    using srt ip(2) le iq(3) by (rule qinterp_mono)
  note rp = floor_ceil_range[OF ip(2,3)]
  note rq = floor_ceil_range[OF iq(2,3)]
  have lo: "nat \<lfloor>flr (p * (real (length xs) - 1))\<rfloor> < length xs" using rp(4,5) by linarith
  show "hd xs \<le> qinterp xs (flr (p * (real (length xs) - 1)))"
    using sorted_nth_range(1)[OF srt lo] qinterp_bounds(1)[OF srt ip(2,3)] by linarith
  show "qinterp xs (flr (q * (real (length xs) - 1))) \<le> last xs"
    using sorted_nth_range(2)[OF srt rq(5)] qinterp_bounds(2)[OF srt iq(2,3)] by linarith
qed

lemma percentile_literals:
  "fl 0.05 = Num (3602879701896397 / 2 ^ 56)" "fl 0.25 = Num (1 / 4)" "fl 0.5 = Num (1 / 2)"
  "fl 0.75 = Num (3 / 4)" "fl 0.95 = Num (4278419646001971 / 2 ^ 52)"
  by (simp_all add: fl_tab)

lemma summary_percentile_chain_rounded:
  assumes "data \<noteq> []" and "length data < 2 ^ 32"
    and "\<forall>x \<in> set data. \<bar>x\<bar> \<le> M" and "M \<le> 2 ^ 1000"
  shows "\<exists>s mn p5 p25 md p75 p95 mx. computeSummaryStats data = Inr s
           \<and> ss_min s = Num mn \<and> ss_p5 s = Num p5 \<and> ss_p25 s = Num p25 \<and> ss_median s = Num md
           \<and> ss_p75 s = Num p75 \<and> ss_p95 s = Num p95 \<and> ss_max s = Num mx
           \<and> mn \<le> p5 + quantile_tol M \<and> p5 \<le> p25 + 2 * quantile_tol M
           \<and> p25 \<le> md + 2 * quantile_tol M \<and> md \<le> p75 + 2 * quantile_tol M
           \<and> p75 \<le> p95 + 2 * quantile_tol M \<and> p95 \<le> mx + quantile_tol M"
proof -
  define xs where "xs = sort data"
  have ne: "xs \<noteq> []" and srt: "sorted xs" and n: "length xs = length data"
    using sort_props(1)[OF assms(1)] by (simp_all add: xs_def)
  have len: "length xs \<le> 2 ^ 53" using assms(2) n by simp
  have bound: "\<forall>x \<in> set xs. \<bar>x\<bar> \<le> M" using assms(3) by (simp add: xs_def)
  define Q where "Q p = qinterp xs (flr (p * (real (length xs) - 1)))" for p
  define c5 :: real where "c5 = 3602879701896397 / 2 ^ 56"
  define c95 :: real where "c95 = 4278419646001971 / 2 ^ 52"
  have c: "0 < c5" "c5 \<le> 1 / 4" "3 / 4 \<le> c95" "c95 < 1" by (simp_all add: c5_def c95_def)
  obtain p5 where p5: "quantile xs (Num c5) = Num p5" "\<bar>p5 - Q c5\<bar> \<le> quantile_tol M"
    using quantile_near[OF ne len bound assms(4), of c5] c unfolding Q_def by auto
  obtain p25 where p25: "quantile xs (Num (1 / 4)) = Num p25" "\<bar>p25 - Q (1 / 4)\<bar> \<le> quantile_tol M"
    using quantile_near[OF ne len bound assms(4), of "1 / 4"] unfolding Q_def by auto
  obtain md where md: "quantile xs (Num (1 / 2)) = Num md" "\<bar>md - Q (1 / 2)\<bar> \<le> quantile_tol M"
    using quantile_near[OF ne len bound assms(4), of "1 / 2"] unfolding Q_def by auto
  obtain p75 where p75: "quantile xs (Num (3 / 4)) = Num p75" "\<bar>p75 - Q (3 / 4)\<bar> \<le> quantile_tol M"
    using quantile_near[OF ne len bound assms(4), of "3 / 4"] unfolding Q_def by auto
  obtain p95 where p95: "quantile xs (Num c95) = Num p95" "\<bar>p95 - Q c95\<bar> \<le> quantile_tol M"
    using quantile_near[OF ne len bound assms(4), of c95] c unfolding Q_def by auto
  have m1: "Q c5 \<le> Q (1 / 4)" and lo: "hd xs \<le> Q c5"
    using qinterp_index_mono(1,2)[OF ne srt len, of c5 "1 / 4"] c unfolding Q_def by simp_all
  have m2: "Q (1 / 4) \<le> Q (1 / 2)"
    using qinterp_index_mono(1)[OF ne srt len, of "1 / 4" "1 / 2"] unfolding Q_def by simp
  have m3: "Q (1 / 2) \<le> Q (3 / 4)"
    using qinterp_index_mono(1)[OF ne srt len, of "1 / 2" "3 / 4"] unfolding Q_def by simp
  have m4: "Q (3 / 4) \<le> Q c95" and hi: "Q c95 \<le> last xs"
    using qinterp_index_mono(1,3)[OF ne srt len, of "3 / 4" c95] c unfolding Q_def by simp_all
  have mn: "arr_get xs 0 = Num (hd xs)"
    using ne hd_nth0[OF ne] by (simp add: arr_get_def)
  have mx: "arr_get xs (int (length data) - 1) = Num (last xs)"
    using ne last_nth[OF ne] n assms(1) by (simp add: arr_get_def nat_int_pred)
  obtain s where s: "computeSummaryStats data = Inr s"
    "ss_min s = Num (hd xs)" "ss_max s = Num (last xs)"
    "ss_p5 s = Num p5" "ss_p25 s = Num p25" "ss_median s = Num md"
    "ss_p75 s = Num p75" "ss_p95 s = Num p95"
    using summary_fields[OF assms(1)]
    unfolding percentile_literals xs_def[symmetric] mn mx
      p5(1)[unfolded c5_def] p25(1) md(1) p75(1) p95(1)[unfolded c95_def]
    by blast
  have "hd xs \<le> p5 + quantile_tol M" "p5 \<le> p25 + 2 * quantile_tol M"
    "p25 \<le> md + 2 * quantile_tol M" "md \<le> p75 + 2 * quantile_tol M"
    "p75 \<le> p95 + 2 * quantile_tol M" "p95 \<le> last xs + quantile_tol M"
    using p5(2) p25(2) md(2) p75(2) p95(2) m1 m2 m3 m4 lo hi by linarith+
  then show ?thesis using s by blast
qed

text \<open>
  Claim C5 does not hold of the code. For the sample \<open>[1.7, 1.7, 1.7, 2.7]\<close>
  \<^verbatim>\<open>computeSummaryStats\<close> returns \<open>min = 1.7\<close> and \<open>p5 = 1.6999999999999997\<close>: the index
  is \<open>0.15000000000000002\<close>, both neighbours are \<open>1.7\<close>, and the sum of the two rounded
  products \<open>1.7 * (1 - weight)\<close> and \<open>1.7 * weight\<close> rounds below \<open>1.7\<close>. The first link
  \<open>min \<le> p5\<close> of the chain fails.
\<close>

theorem summary_percentile_chain_fails:
  "case computeSummaryStats [dbl 1.7, dbl 1.7, dbl 1.7, dbl 2.7] of
     Inl e \<Rightarrow> False
   | Inr s \<Rightarrow> ss_min s = Num (7656119366529843 / 2 ^ 52)
             \<and> ss_p5 s = Num (7656119366529842 / 2 ^ 52)
             \<and> jlt (ss_p5 s) (ss_min s)"
proof -
  have s: "sort [dbl 1.7, dbl 1.7, dbl 1.7, dbl 2.7] = [dbl 1.7, dbl 1.7, dbl 1.7, dbl 2.7]"
    by (simp add: dbl_def fl_tab)
  have q: "quantile [dbl 1.7, dbl 1.7, dbl 1.7, dbl 2.7] (fl 0.05) = Num (7656119366529842 / 2 ^ 52)"
    by (simp add: quantile_eval)
  have m: "arr_get [dbl 1.7, dbl 1.7, dbl 1.7, dbl 2.7] 0 = Num (7656119366529843 / 2 ^ 52)"
    by (simp add: arr_get_def dbl_def fl_tab)
  have ne: "[dbl 1.7, dbl 1.7, dbl 1.7, dbl 2.7] \<noteq> []" by simp
  show ?thesis using summary_fields[OF ne] unfolding s q m by auto
qed

text \<open>
  The last link fails as well: for \<open>[1.9, 2.9, 2.9]\<close> the 95th percentile is
  \<open>2.9000000000000004\<close>, above the maximum \<open>2.9\<close>.
\<close>

lemma summary_p95_above_max:
  "quantile (sort [dbl 1.9, dbl 2.9, dbl 2.9]) (fl 0.95) = Num (6530219459687220 / 2 ^ 51)
   \<and> arr_get (sort [dbl 1.9, dbl 2.9, dbl 2.9]) (int (length [dbl 1.9, dbl 2.9, dbl 2.9]) - 1)
       = Num (6530219459687219 / 2 ^ 51)"
proof -
  have s: "sort [dbl 1.9, dbl 2.9, dbl 2.9] = [dbl 1.9, dbl 2.9, dbl 2.9]"
    by (simp add: dbl_def fl_tab)
  show ?thesis unfolding s by (simp add: quantile_eval)
qed

section \<open>Summary statistics and tail indices\<close>

subsection \<open>The Welford recurrence\<close>

lemma sum_sq_dev:
  "sum_list (map (\<lambda>y. (y - c)\<^sup>2) xs)
     = sum_list (map (\<lambda>y. y\<^sup>2) xs) - 2 * c * sum_list xs + real (length xs) * c\<^sup>2"
  by (induction xs) (simp_all add: power2_eq_square algebra_simps)


subsection \<open>Summary statistics\<close>

lemma welford_mean_step:
  fixes n S x :: real assumes n0: "0 < n"
  shows "S / n + (x - S / n) / (n + 1) = (S + x) / (n + 1)"
proof -
  define m where "m = n + 1"
  have n1: "m \<noteq> 0" "n \<noteq> 0" using n0 by (auto simp: m_def)
  have "S / n + (x - S / n) / m = (S + x) / m"
    using n1 by (simp add: field_simps) (simp add: m_def algebra_simps)
  then show ?thesis by (simp add: m_def)
qed

lemma welford_m2_step:
  fixes n S x Q :: real assumes n0: "0 < n"
  shows "Q - S\<^sup>2 / n + (x - S / n) * (x - (S + x) / (n + 1))
                = Q + x\<^sup>2 - (S + x)\<^sup>2 / (n + 1)"
proof -
  define m where "m = n + 1"
  have n1: "m \<noteq> 0" "n \<noteq> 0" using n0 by (auto simp: m_def)
  have "Q - S\<^sup>2 / n + (x - S / n) * (x - (S + x) / m) = Q + x\<^sup>2 - (S + x)\<^sup>2 / m"
    using n1 by (simp add: field_simps power2_eq_square) (simp add: m_def algebra_simps)
  then show ?thesis by (simp add: m_def)
qed

lemma welford_fold:
  "fold welford_step xs (0, 0, 0) =
     (length xs, sum_list xs / real (length xs),
      sum_list (map (\<lambda>y. y\<^sup>2) xs) - (sum_list xs)\<^sup>2 / real (length xs))"
proof (induction xs rule: rev_induct)
  case Nil
  show ?case by simp
next
  case (snoc x xs)
  show ?case
  proof (cases "xs = []")
    case True
    then show ?thesis by (simp add: power2_eq_square)
  next
    case False
    then have n: "0 < real (length xs)" by simp
    define n where "n = real (length xs)"
    define S where "S = sum_list xs"
    define Q where "Q = sum_list (map (\<lambda>y. y\<^sup>2) xs)"
    have n0: "0 < n" using False by (simp add: n_def)
    have mean: "S / n + (x - S / n) / (n + 1) = (S + x) / (n + 1)"
      by (rule welford_mean_step[OF n0])
    have m2: "Q - S\<^sup>2 / n + (x - S / n) * (x - (S + x) / (n + 1))
                = Q + x\<^sup>2 - (S + x)\<^sup>2 / (n + 1)"
      by (rule welford_m2_step[OF n0])
    have "fold welford_step (xs @ [x]) (0, 0, 0) = welford_step x (length xs, S / n, Q - S\<^sup>2 / n)"
      using snoc.IH by (simp add: n_def S_def Q_def)
    also have "\<dots> = (length xs + 1, (S + x) / (n + 1), Q + x\<^sup>2 - (S + x)\<^sup>2 / (n + 1))"
      using mean m2 by (simp add: Let_def n_def add.commute)
    finally show ?thesis by (simp add: n_def S_def Q_def add.commute)
  qed
qed

lemma two_pass_m2:
  assumes "xs \<noteq> []"
  shows "sum_list (map (\<lambda>x. (x - two_pass_mean xs)\<^sup>2) xs)
           = sum_list (map (\<lambda>y. y\<^sup>2) xs) - (sum_list xs)\<^sup>2 / real (length xs)"
proof -
  have n0: "0 < real (length xs)" using assms by simp
  show ?thesis unfolding sum_sq_dev two_pass_mean_def using n0
    by (simp add: field_simps power2_eq_square)
qed

lemma welford_mean_eq: "wf_mean (welfordAlgorithm data) = two_pass_mean data"
  by (simp add: welfordAlgorithm_def welford_fold two_pass_mean_def Let_def)

lemma welford_variance_eq: "wf_variance (welfordAlgorithm data) = two_pass_variance data"
proof (cases "data = []")
  case True
  then show ?thesis by (simp add: welfordAlgorithm_def two_pass_variance_def)
next
  case False
  then show ?thesis using two_pass_m2[OF False]
    by (simp add: welfordAlgorithm_def welford_fold two_pass_variance_def Let_def)
qed

text \<open>
  Claim C4. Over exact real arithmetic the single-pass recurrence of
  \<^verbatim>\<open>welfordAlgorithm\<close>, as used by \<^verbatim>\<open>computeSummaryStats\<close>, gives the results of the
  naive two-pass definitions: the variance is \<open>sum((x - mean)^2)/(n - 1)\<close> for \<open>n > 1\<close> and
  0 for \<open>n \<le> 1\<close>, and on a non-empty sample the mean is \<open>sum(x)/n\<close>; these are the \<open>mean\<close>
  and \<open>variance\<close> fields of the record \<^verbatim>\<open>computeSummaryStats\<close> returns. (On the empty
  sample \<open>sum(x)/n\<close> is \<open>0/0\<close>, and \<^verbatim>\<open>computeSummaryStats\<close> fails before the recurrence
  runs.)
\<close>

theorem welford_equals_two_pass:
  "wf_variance (welfordAlgorithm data) = two_pass_variance data
   \<and> (data \<noteq> [] \<longrightarrow>
        wf_mean (welfordAlgorithm data) = two_pass_mean data
        \<and> (\<exists>s. computeSummaryStats data = Inr s
               \<and> ss_mean s = Num (two_pass_mean data)
               \<and> ss_variance s = Num (two_pass_variance data)))"
proof -
  have "\<exists>s. computeSummaryStats data = Inr s
              \<and> ss_mean s = Num (wf_mean (welfordAlgorithm data))
              \<and> ss_variance s = Num (wf_variance (welfordAlgorithm data))"
    if "data \<noteq> []"
    using that by (simp add: computeSummaryStats_def Let_def)
  then show ?thesis using welford_mean_eq[of data] welford_variance_eq[of data] by simp
qed

theorem welford_equals_two_pass_witness:
  "wf_mean (welfordAlgorithm [1, 2, 6]) = 3 \<and> wf_variance (welfordAlgorithm [1, 2, 6]) = 7
   \<and> (\<exists>s. computeSummaryStats [1, 2, 6] = Inr s \<and> ss_mean s = Num 3 \<and> ss_variance s = Num 7)"
proof -
  have ne: "[1, 2, 6 :: real] \<noteq> []" by simp
  have m: "two_pass_mean [1, 2, 6] = 3" by (simp add: two_pass_mean_def)
  have v: "two_pass_variance [1, 2, 6] = 7" by (simp add: two_pass_variance_def m)
  from welford_equals_two_pass[of "[1, 2, 6]"] ne show ?thesis unfolding m v by blast
qed

lemma welford_variance_nonneg: "0 \<le> wf_variance (welfordAlgorithm data)"
proof (cases "data = []")
  case True
  then show ?thesis by (simp add: welfordAlgorithm_def)
next
  case False
  have "0 \<le> sum_list (map (\<lambda>x. (x - two_pass_mean data)\<^sup>2) data)"
    by (rule sum_list_nonneg) auto
  then have "0 \<le> two_pass_variance data" by (simp add: two_pass_variance_def)
  then show ?thesis using welford_variance_eq[of data] by simp
qed

text \<open>
  Claim C9. \<^verbatim>\<open>computeSummaryStats\<close> on the empty sample fails with its error
  (\<^verbatim>\<open>Error('Cannot compute statistics on empty data')\<close>) instead of returning a record,
  and on every non-empty sample it returns a record and raises nothing.
\<close>

theorem summary_empty_input:
  "(data = [] \<longrightarrow> computeSummaryStats data = Inl (Error ''Cannot compute statistics on empty data''))
   \<and> (data \<noteq> [] \<longrightarrow> (\<exists>s. computeSummaryStats data = Inr s))"
  by (simp add: computeSummaryStats_def Let_def)

theorem summary_empty_input_witness:
  "computeSummaryStats [] = Inl (Error ''Cannot compute statistics on empty data'')
   \<and> (\<exists>s. computeSummaryStats [2, 1] = Inr s)"
  using summary_empty_input[of "[]"] summary_empty_input[of "[2, 1]"] by simp

subsection \<open>Tail indices\<close>

lemma tail_count_small: "tail_count n < 5 \<longleftrightarrow> n < 25"
proof -
  let ?k = "max (max \<lfloor>sqrt (real n)\<rfloor> \<lfloor>0.05 * real n\<rfloor>) 20"
  have k: "20 \<le> ?k" by simp
  have fl: "\<lfloor>real n * 0.2\<rfloor> < 5 \<longleftrightarrow> n < 25"
  proof -
    have "\<lfloor>real n * 0.2\<rfloor> < 5 \<longleftrightarrow> real n * 0.2 < 5" by (simp add: floor_less_iff)
    also have "\<dots> \<longleftrightarrow> n < 25" by auto
    finally show ?thesis .
  qed
  have "\<not> ?k < 5" using k by linarith
  then have "tail_count n < 5 \<longleftrightarrow> \<lfloor>real n * 0.2\<rfloor> < 5"
    unfolding tail_count_def Let_def min_less_iff_disj by blast
  then show ?thesis using fl by simp
qed

text \<open>
  Claim C8. Whenever the capped tail count
  \<open>min(max(\<lfloor>sqrt n\<rfloor>, \<lfloor>0.05 n\<rfloor>, 20), \<lfloor>0.2 n\<rfloor>)\<close> is below 5, which is the case for every
  sample of size 10, \<^verbatim>\<open>computeHillIndex\<close> and \<^verbatim>\<open>computeLeftTailIndex\<close> return the
  value \<open>NaN\<close>.
\<close>

theorem tail_index_nan:
  "(tail_count (length sorted_arr) < 5 \<longrightarrow>
      computeHillIndex sorted_arr = NaN \<and> computeLeftTailIndex sorted_arr = NaN)
   \<and> (length sorted_arr = 10 \<longrightarrow> tail_count (length sorted_arr) < 5)"
  by (simp add: computeHillIndex_def computeLeftTailIndex_def Let_def tail_count_small)

theorem tail_index_nan_witness:
  "computeHillIndex [1, 2, 3, 4, 5, 6, 7, 8, 9, 10] = NaN
   \<and> computeLeftTailIndex [1, 2, 3, 4, 5, 6, 7, 8, 9, 10] = NaN"
  using tail_index_nan[of "[1, 2, 3, 4, 5, 6, 7, 8, 9, 10]"] by simp

section \<open>Golden-section search\<close>

lemma fl_gss_1: "fl (910872158600853 / 281474976710656) = Num (910872158600853 / 281474976710656)"
  using fl_eqI[of 51 "910872158600853 / 281474976710656" "7286977268806824"] by simp

lemma fl_gss_2: "fl (910872158600853 / 562949953421312) = Num (910872158600853 / 562949953421312)"
  using fl_eqI[of 52 "910872158600853 / 562949953421312" "7286977268806824"] by simp

lemma fl_gss_3: "fl (215027748241771 / 562949953421312) = Num (215027748241771 / 562949953421312)"
  using fl_eqI[of 54 "215027748241771 / 562949953421312" "6880887943736672"] by simp

lemma fl_gss_4: "fl (1 / 4503599627370496) = Num (1 / 4503599627370496)"
  using fl_eqI[of 104 "1 / 4503599627370496" "4503599627370496"] by simp

lemma fl_gss_5: "fl (215027748241771 / 2535301200456458802993406410752) = Num (215027748241771 / 2535301200456458802993406410752)"
  using fl_eqI[of 106 "215027748241771 / 2535301200456458802993406410752" "6880887943736672"] by simp

lemma fl_gss_6: "fl (2535301200456459018021154652523 / 2535301200456458802993406410752) = Num 1"
  using fl_eqI[of 52 "2535301200456459018021154652523 / 2535301200456458802993406410752" "4503599627370496"] by simp

lemma fl_gss_7: "fl (2535301200456459150915611590293 / 2535301200456458802993406410752) = Num (4503599627370497 / 4503599627370496)"
  using fl_eqI[of 52 "2535301200456459150915611590293 / 2535301200456458802993406410752" "4503599627370497"] by simp

lemmas fl_gss = fl_gss_1 fl_gss_2 fl_gss_3 fl_gss_4 fl_gss_5 fl_gss_6 fl_gss_7

lemma sqrt5_between:
  "5035177455121576 - 1 / 2 < sqrt 5 * 2 ^ 51" "sqrt 5 * 2 ^ 51 < 5035177455121576 + 1 / 2"
proof -
  have "(10070354910243151 / 2 ^ 52)\<^sup>2 < (5 :: real)" by (simp add: power_divide)
  then have "10070354910243151 / 2 ^ 52 < sqrt 5" by (rule real_less_rsqrt)
  then show "5035177455121576 - 1 / 2 < sqrt 5 * 2 ^ 51" by simp
  have "(5 :: real) < (10070354910243153 / 2 ^ 52)\<^sup>2" by (simp add: power_divide)
  then have "sqrt 5 < 10070354910243153 / 2 ^ 52" by (intro real_less_lsqrt) simp_all
  then show "sqrt 5 * 2 ^ 51 < 5035177455121576 + 1 / 2" by simp
qed

lemma fl_sqrt5: "fl (sqrt 5) = Num (629397181890197 / 2 ^ 48)"
proof -
  have "fl (sqrt 5) = Num (real_of_int 5035177455121576 / 2 ^ 51)"
  proof (rule fl_eqI)
    show "(51 :: nat) \<le> 1074" by simp
    show "2 ^ 52 \<le> \<bar>sqrt 5\<bar> * 2 ^ 51" using sqrt5_between(1) by simp
    show "\<bar>sqrt 5\<bar> * 2 ^ 51 < 2 ^ 53" using sqrt5_between(2) by simp
    have "\<bar>sqrt 5 * 2 ^ 51 - 5035177455121576\<bar> < 1 / 2"
      using sqrt5_between by linarith
    then show "\<bar>sqrt 5 * 2 ^ 51 - real_of_int 5035177455121576\<bar> < 1 / 2"
      by simp
  qed
  then show ?thesis by simp
qed

text \<open>The constant \<^verbatim>\<open>resphi = 2 - (1 + Math.sqrt(5)) / 2\<close> as a double.\<close>

lemma resphi_value:
  "fsub (Num 2) (fdiv (fadd (Num 1) (fsqrt (Num 5))) (Num 2)) = Num (215027748241771 / 2 ^ 49)"
  by (simp add: fl_ops fsqrt_def fl_sqrt5 fl_gss)

text \<open>
  Between the adjacent doubles \<open>1\<close> and \<open>1 + 2^-52\<close> the two probes
  \<open>a + resphi * (b - a)\<close> and \<open>b - resphi * (b - a)\<close> round to \<open>a\<close> and to \<open>b\<close>.
\<close>

lemma gss_probe_lower:
  "fadd (Num 1) (fmul (Num (215027748241771 / 2 ^ 49)) (fsub (Num (1 + 1 / 2 ^ 52)) (Num 1))) = Num 1"
  by (simp add: fl_ops fl_gss)

lemma gss_probe_upper:
  "fsub (Num (1 + 1 / 2 ^ 52)) (fmul (Num (215027748241771 / 2 ^ 49)) (fsub (Num (1 + 1 / 2 ^ 52)) (Num 1)))
     = Num (1 + 1 / 2 ^ 52)"
  by (simp add: fl_ops fl_gss)

lemma gss_guard:
  "jgt (jabs (fsub (Num (1 + 1 / 2 ^ 52)) (Num 1))) (Num (1 / 2 ^ 60))"
  by (simp add: fl_ops fl_gss jgt_def)

text \<open>
  With the identity as objective the loop alternates between the states
  \<open>(a, b, a, b, a, b)\<close> and \<open>(a, b, a, a, a, a)\<close> for \<open>a = 1\<close>, \<open>b = 1 + 2^-52\<close>: no run
  from either of them returns.
\<close>

lemma gss_loop_cycle:
  assumes "gss_loop f resphi tol a b x1 x2 f1 f2 = Some y"
  shows "\<not> gss_cycle_state f resphi tol a b x1 x2 f1 f2"
proof (rule gss_loop.raw_induct
    [where P = "\<lambda>f resphi tol a b x1 x2 f1 f2 y. \<not> gss_cycle_state f resphi tol a b x1 x2 f1 f2",
      OF _ assms])
  fix gss :: "(number \<Rightarrow> number) \<Rightarrow> number \<Rightarrow> number \<Rightarrow> number \<Rightarrow> number \<Rightarrow> number \<Rightarrow> number
                \<Rightarrow> number \<Rightarrow> number \<Rightarrow> number option"
    and f resphi tol a b x1 x2 f1 f2 y
  assume IH: "\<And>f resphi tol a b x1 x2 f1 f2 y.
                gss f resphi tol a b x1 x2 f1 f2 = Some y \<Longrightarrow>
                \<not> gss_cycle_state f resphi tol a b x1 x2 f1 f2"
    and step: "(if jgt (jabs (fsub b a)) tol
                then if jlt f1 f2
                     then gss f resphi tol a x2 (fadd a (fmul resphi (fsub x2 a))) x1
                            (f (fadd a (fmul resphi (fsub x2 a)))) f1
                     else gss f resphi tol x1 b x2 (fsub b (fmul resphi (fsub b x1))) f2
                            (f (fsub b (fmul resphi (fsub b x1))))
                else Some (fdiv (fadd a b) (Num 2))) = Some y"
  show "\<not> gss_cycle_state f resphi tol a b x1 x2 f1 f2"
  proof
    assume c: "gss_cycle_state f resphi tol a b x1 x2 f1 f2"
    then have p: "f = (\<lambda>x. x)" "resphi = Num (215027748241771 / 2 ^ 49)" "tol = Num (1 / 2 ^ 60)"
      "a = Num 1" "b = Num (1 + 1 / 2 ^ 52)" "x1 = Num 1" "f1 = Num 1"
      by (simp_all add: gss_cycle_state_def)
    from c consider (wide) "x2 = Num (1 + 1 / 2 ^ 52)" "f2 = Num (1 + 1 / 2 ^ 52)"
      | (narrow) "x2 = Num 1" "f2 = Num 1"
      unfolding gss_cycle_state_def by blast
    then show False
    proof cases
      case wide
      have lt: "jlt f1 f2" by (simp add: p wide)
      have "gss f resphi tol a x2 (fadd a (fmul resphi (fsub x2 a))) x1
              (f (fadd a (fmul resphi (fsub x2 a)))) f1 = Some y"
        using step gss_guard lt unfolding p wide by simp
      then have "gss (\<lambda>x. x) (Num (215027748241771 / 2 ^ 49)) (Num (1 / 2 ^ 60)) (Num 1)
                   (Num (1 + 1 / 2 ^ 52)) (Num 1) (Num 1) (Num 1) (Num 1) = Some y"
        unfolding p wide gss_probe_lower .
      from IH[OF this] show False by (simp add: gss_cycle_state_def)
    next
      case narrow
      have lt: "\<not> jlt f1 f2" by (simp add: p narrow)
      have "gss f resphi tol x1 b x2 (fsub b (fmul resphi (fsub b x1))) f2
              (f (fsub b (fmul resphi (fsub b x1)))) = Some y"
        using step gss_guard lt unfolding p narrow by simp
      then have "gss (\<lambda>x. x) (Num (215027748241771 / 2 ^ 49)) (Num (1 / 2 ^ 60)) (Num 1)
                   (Num (1 + 1 / 2 ^ 52)) (Num 1) (Num (1 + 1 / 2 ^ 52)) (Num 1)
                   (Num (1 + 1 / 2 ^ 52)) = Some y"
        unfolding p narrow gss_probe_upper .
      from IH[OF this] show False by (simp add: gss_cycle_state_def)
    qed
  qed
qed

text \<open>
  Claim C7 does not hold of the code. With the identity as objective, the bounds
  \<open>a = 1 < b = 1 + 2^-52\<close> and the tolerance \<open>2^-60 > 0\<close>, \<^verbatim>\<open>goldenSectionSearch\<close> never
  leaves its loop: the bracket is one unit in the last place wide, both probes round to
  its end points, and no assignment of the loop body changes \<open>a\<close> or \<open>b\<close>.
\<close>

theorem goldenSectionSearch_diverges:
  "goldenSectionSearch (\<lambda>x. x) (Num 1) (Num (1 + 1 / 2 ^ 52)) (Num (1 / 2 ^ 60)) = None"
proof (rule ccontr)
  assume "goldenSectionSearch (\<lambda>x. x) (Num 1) (Num (1 + 1 / 2 ^ 52)) (Num (1 / 2 ^ 60)) \<noteq> None"
  then obtain y where
    "goldenSectionSearch (\<lambda>x. x) (Num 1) (Num (1 + 1 / 2 ^ 52)) (Num (1 / 2 ^ 60)) = Some y"
    by blast
  then have "gss_loop (\<lambda>x. x) (Num (215027748241771 / 2 ^ 49)) (Num (1 / 2 ^ 60)) (Num 1)
               (Num (1 + 1 / 2 ^ 52)) (Num 1) (Num (1 + 1 / 2 ^ 52)) (Num 1)
               (Num (1 + 1 / 2 ^ 52)) = Some y"
    unfolding goldenSectionSearch_def Let_def resphi_value gss_probe_lower gss_probe_upper .
  from gss_loop_cycle[OF this] show False by (simp add: gss_cycle_state_def)
qed

section \<open>The normality tests\<close>

lemma jmax_Num [simp]: "jmax (Num a) (Num b) = Num (max a b)"
  by (simp add: jmax_def max_def)

lemma jmin_Num [simp]: "jmin (Num a) (Num b) = Num (min a b)"
  by (simp add: jmin_def min_def)

lemma jsub_Num [simp]: "jsub (Num a) (Num b) = Num (a - b)"
  by (simp add: jsub_def)

lemma erf_Num: "erf (Num x) = Num (erf_r x)"
proof -
  have "0 < 1 + 0.3275911 * \<bar>x\<bar>" by (simp add: add_pos_nonneg)
  then have nz: "1 + 0.3275911 * \<bar>x\<bar> \<noteq> 0" by simp
  show ?thesis
    unfolding erf_def erf_r_def Let_def
    by (simp add: nz jge_def)
qed

lemma normCDF_Num: "normCDF (Num x) = Num (normCDF_r x)"
  by (simp add: normCDF_def normCDF_r_def erf_Num)

lemma clamp_unit:
  "jmax (Num 0) (jmin (Num 1) x) = NaN \<or> (\<exists>p. jmax (Num 0) (jmin (Num 1) x) = Num p \<and> 0 \<le> p \<and> p \<le> 1)"
  by (cases x) (auto simp: jmax_def jmin_def)

lemma ks_step_Num:
  assumes "i < length xs" and "sigma \<noteq> 0"
  shows "ks_step xs n mu sigma i (Num a, Num b) =
           (Num (max a ((real i + 1) / real n - normCDF_r ((xs ! i - mu) / sigma))),
            Num (max b (normCDF_r ((xs ! i - mu) / sigma) - real i / real n)))"
  using assms by (simp add: ks_step_def arr_get_def Let_def normCDF_Num)

lemma ks_fold_Num:
  assumes "m \<le> length xs" and "sigma \<noteq> 0"
  shows "fold (ks_step xs n mu sigma) [0 ..< m] (Num 0, Num 0) =
           (Num (Max (insert 0 ((\<lambda>i. (real i + 1) / real n - normCDF_r ((xs ! i - mu) / sigma)) ` {..<m}))),
            Num (Max (insert 0 ((\<lambda>i. normCDF_r ((xs ! i - mu) / sigma) - real i / real n) ` {..<m}))))"
  using assms(1)
proof (induction m)
  case 0
  show ?case by simp
next
  case (Suc m)
  let ?p = "\<lambda>i. (real i + 1) / real n - normCDF_r ((xs ! i - mu) / sigma)"
  let ?q = "\<lambda>i. normCDF_r ((xs ! i - mu) / sigma) - real i / real n"
  have m: "m < length xs" "m \<le> length xs" using Suc.prems by simp_all
  have P: "Max (insert 0 (?p ` {..<Suc m})) = max (Max (insert 0 (?p ` {..<m}))) (?p m)"
  proof -
    have "insert 0 (?p ` {..<Suc m}) = insert (?p m) (insert 0 (?p ` {..<m}))"
      by (auto simp: lessThan_Suc)
    then show ?thesis by (simp add: max.commute del: Max_insert)
        (subst Max_insert, simp_all add: max.commute)
  qed
  have Q: "Max (insert 0 (?q ` {..<Suc m})) = max (Max (insert 0 (?q ` {..<m}))) (?q m)"
  proof -
    have "insert 0 (?q ` {..<Suc m}) = insert (?q m) (insert 0 (?q ` {..<m}))"
      by (auto simp: lessThan_Suc)
    then show ?thesis by (simp add: max.commute del: Max_insert)
        (subst Max_insert, simp_all add: max.commute)
  qed
  have "fold (ks_step xs n mu sigma) [0 ..< Suc m] (Num 0, Num 0)
          = ks_step xs n mu sigma m (fold (ks_step xs n mu sigma) [0 ..< m] (Num 0, Num 0))"
    by simp
  also have "\<dots> = (Num (max (Max (insert 0 (?p ` {..<m}))) (?p m)),
                     Num (max (Max (insert 0 (?q ` {..<m}))) (?q m)))"
    unfolding Suc.IH[OF m(2)] by (rule ks_step_Num[OF m(1) assms(2)])
  finally show ?case unfolding P Q .
qed

lemma ks_max_positive:
  fixes p q :: "nat \<Rightarrow> real"
  assumes "0 < n" and "\<And>i. p i + q i > 0"
  shows "max (Max (insert 0 (p ` {..<n}))) (Max (insert 0 (q ` {..<n})))
           = max (Max (p ` {..<n})) (Max (q ` {..<n}))"
proof -
  have ne: "p ` {..<n} \<noteq> {}" "q ` {..<n} \<noteq> {}" using assms(1) by auto
  have fin: "finite (p ` {..<n})" "finite (q ` {..<n})" by simp_all
  have P: "Max (insert 0 (p ` {..<n})) = max 0 (Max (p ` {..<n}))"
    using Max_insert[OF fin(1) ne(1)] by simp
  have Q: "Max (insert 0 (q ` {..<n})) = max 0 (Max (q ` {..<n}))"
    using Max_insert[OF fin(2) ne(2)] by simp
  have "p 0 \<le> Max (p ` {..<n})" using assms(1) by (intro Max_ge) auto
  moreover have "q 0 \<le> Max (q ` {..<n})" using assms(1) by (intro Max_ge) auto
  moreover have "p 0 + q 0 > 0" by (rule assms(2))
  ultimately have "0 < max (Max (p ` {..<n})) (Max (q ` {..<n}))" by linarith
  then show ?thesis unfolding P Q by linarith
qed

text \<open>
  Claim C6. For a non-empty sample and fitted parameters \<open>mu\<close>, \<open>sigma \<noteq> 0\<close> the statistic
  of \<^verbatim>\<open>kolmogorovSmirnovTest\<close> is \<open>max(D+, D-)\<close>, where over the ascending points
  \<open>i = 0 .. n - 1\<close> \<open>D+\<close> is the maximum of \<open>(i + 1) / n\<close> minus the theoretical normal CDF
  and \<open>D-\<close> is the maximum of the theoretical normal CDF minus \<open>i / n\<close>. (The loop starts
  both running maxima at 0; one of the two is positive, so the start value never shows.)
\<close>

theorem ks_statistic_refines_spec:
  assumes "data \<noteq> []" and "sigma \<noteq> 0"
  shows "st_statistic (kolmogorovSmirnovTest data mu sigma alpha)
           = Num (max (ks_Dplus_spec (sort data) mu sigma) (ks_Dminus_spec (sort data) mu sigma))"
proof -
  let ?xs = "sort data" and ?n = "length data"
  let ?p = "\<lambda>i. (real i + 1) / real ?n - normCDF_r ((?xs ! i - mu) / sigma)"
  let ?q = "\<lambda>i. normCDF_r ((?xs ! i - mu) / sigma) - real i / real ?n"
  have n: "0 < ?n" using assms(1) by simp
  have len: "?n \<le> length ?xs" by simp
  have pq: "\<And>i. ?p i + ?q i > 0" using n by (simp add: field_simps)
  have fold: "fold (ks_step ?xs ?n mu sigma) [0 ..< ?n] (Num 0, Num 0)
                = (Num (Max (insert 0 (?p ` {..<?n}))), Num (Max (insert 0 (?q ` {..<?n}))))"
    by (rule ks_fold_Num[OF len assms(2)])
  have "st_statistic (kolmogorovSmirnovTest data mu sigma alpha)
          = Num (max (Max (insert 0 (?p ` {..<?n}))) (Max (insert 0 (?q ` {..<?n}))))"
    unfolding kolmogorovSmirnovTest_def Let_def fold by simp
  also have "\<dots> = Num (max (Max (?p ` {..<?n})) (Max (?q ` {..<?n})))"
    using ks_max_positive[of ?n ?p ?q, OF n pq] by simp
  finally show ?thesis
    by (simp add: ks_Dplus_spec_def ks_Dminus_spec_def atLeast0LessThan)
qed

theorem ks_statistic_refines_spec_witness:
  "st_statistic (kolmogorovSmirnovTest [0] 0 1 0.05) = Num (1000000001 / 2000000000)"
proof -
  have "[0 :: real] \<noteq> []" and "(1 :: real) \<noteq> 0" by simp_all
  from ks_statistic_refines_spec[OF this, of 0 "0.05"] show ?thesis
    by (simp add: ks_Dplus_spec_def ks_Dminus_spec_def normCDF_r_def erf_r_def Let_def)
qed

lemma ks_series_Num: "\<exists>v. ks_series (Num l) k (Num s) = Num v"
proof (induction "101 - k" arbitrary: k s)
  case 0
  then have "\<not> k \<le> 100" by simp
  then show ?case by (subst ks_series.simps) simp
next
  case (Suc d)
  then have k: "k \<le> 100" and d: "d = 101 - (k + 1)" by simp_all
  let ?tm = "2 * (- 1) ^ (k - 1) * exp (- 2 * real k * real k * l * l)"
  have step: "ks_series (Num l) k (Num s) =
                (if \<bar>?tm\<bar> < 1 / 10 ^ 10 then Num (s + ?tm)
                 else ks_series (Num l) (k + 1) (Num (s + ?tm)))"
    using k by (subst ks_series.simps) (simp add: Let_def)
  show ?case
  proof (cases "\<bar>?tm\<bar> < 1 / 10 ^ 10")
    case True
    then show ?thesis unfolding step by simp
  next
    case False
    then show ?thesis unfolding step using Suc.hyps(1)[OF d, of "s + ?tm"] by simp
  qed
qed

lemma ks_pValue_unit:
  assumes "0 < n"
  shows "\<exists>p. ksAsymptoticPValue (Num d) n = Num p \<and> 0 \<le> p \<and> p \<le> 1"
proof -
  have nz: "sqrt (real n) \<noteq> 0" using assms by simp
  obtain v where "ks_series (Num ((sqrt (real n) + 0.12 + 0.11 / sqrt (real n)) * d)) 1 (Num 0) = Num v"
    using ks_series_Num by blast
  then show ?thesis using nz by (simp add: ksAsymptoticPValue_def Let_def)
qed

lemma ks_test_unit:
  assumes "data \<noteq> []" and "sigma \<noteq> 0"
  shows "\<exists>p. st_pValue (kolmogorovSmirnovTest data mu sigma alpha) = Num p \<and> 0 \<le> p \<and> p \<le> 1"
proof -
  let ?xs = "sort data" and ?n = "length data"
  have n: "0 < ?n" using assms(1) by simp
  obtain a b where fold: "fold (ks_step ?xs ?n mu sigma) [0 ..< ?n] (Num 0, Num 0) = (Num a, Num b)"
    using ks_fold_Num[of ?n ?xs sigma ?n mu] assms(2) by simp
  obtain p where "ksAsymptoticPValue (Num (max a b)) ?n = Num p" "0 \<le> p" "p \<le> 1"
    using ks_pValue_unit[OF n] by blast
  then show ?thesis unfolding kolmogorovSmirnovTest_def Let_def fold by simp
qed

lemma ks_test_reject:
  "st_rejectNull (kolmogorovSmirnovTest data mu sigma alpha)
     = jlt (st_pValue (kolmogorovSmirnovTest data mu sigma alpha)) (Num alpha)"
  by (simp add: kolmogorovSmirnovTest_def Let_def split: prod.splits)

lemma jb_test_reject:
  "st_rejectNull (jarqueBeraTest data skewness kurtosis alpha)
     = jlt (st_pValue (jarqueBeraTest data skewness kurtosis alpha)) (Num alpha)"
  by (simp add: jarqueBeraTest_def Let_def)

lemma jlog_pos: "0 < x \<Longrightarrow> jlog (Num x) = Num (ln x)"
  by simp

lemma ad_step_Num:
  assumes "i < length xs" and "sigma \<noteq> 0"
  shows "\<exists>v. ad_step xs mu sigma i (Num s) = Num v"
proof -
  define phi where "phi = normCDF_r ((xs ! i - mu) / sigma)"
  define c1 where "c1 = max (1 / 10 ^ 10) (min (1 - 1 / 10 ^ 10) phi)"
  define c2 where "c2 = max (1 / 10 ^ 10) (min (1 - 1 / 10 ^ 10) (1 - phi))"
  have pos: "0 < c1" "0 < c2" by (simp_all add: c1_def c2_def less_max_iff_disj)
  have "ad_step xs mu sigma i (Num s)
          = jadd (Num s) (jmul (Num (2 * (real i + 1) - 1)) (jadd (jlog (Num c1)) (jlog (Num c2))))"
    using assms unfolding ad_step_def Let_def c1_def c2_def phi_def
    by (simp add: arr_get_def normCDF_Num del: jlog.simps)
  then show ?thesis by (simp add: jlog_pos[OF pos(1)] jlog_pos[OF pos(2)] del: jlog.simps)
qed

lemma ad_fold_Num:
  assumes "\<forall>i \<in> set is. i < length xs" and "sigma \<noteq> 0"
  shows "\<exists>v. fold (ad_step xs mu sigma) is (Num s) = Num v"
  using assms(1)
proof (induction "is" arbitrary: s)
  case Nil
  show ?case by simp
next
  case (Cons i "is")
  have "i < length xs" using Cons.prems by simp
  from ad_step_Num[OF this assms(2)] obtain v where v: "ad_step xs mu sigma i (Num s) = Num v"
    by blast
  have "\<forall>i \<in> set is. i < length xs" using Cons.prems by simp
  from Cons.IH[OF this, of v] show ?case by (simp add: v)
qed

lemma ad_test_fields:
  assumes "data \<noteq> []"
    and fold: "fold (ad_step (sort data) mu sigma) [0 ..< length data] (Num 0) = Num v"
    and A: "A = (- real (length data) - v / real (length data))
                  * (1 + 0.75 / real (length data) + 2.25 / (real (length data) * real (length data)))"
  shows "st_statistic (andersonDarlingTest data mu sigma alpha) = Num A"
    and "st_rejectNull (andersonDarlingTest data mu sigma alpha) = (0.787 < A)"
    and "st_pValue (andersonDarlingTest data mu sigma alpha) = Num (max 0 (min 1 (ad_pValue_r A)))"
proof -
  let ?n = "length data"
  have n: "real ?n \<noteq> 0" "real ?n * real ?n \<noteq> 0" using assms(1) by simp_all
  have adj: "jmul (jsub (Num (- real ?n)) (jdiv (Num v) (Num (real ?n))))
               (jadd (jadd (Num 1) (jdiv (Num 0.75) (Num (real ?n))))
                  (jdiv (Num 2.25) (Num (real ?n * real ?n)))) = Num A"
    using n by (simp add: A)
  show "st_statistic (andersonDarlingTest data mu sigma alpha) = Num A"
    unfolding andersonDarlingTest_def Let_def fold adj by simp
  show "st_rejectNull (andersonDarlingTest data mu sigma alpha) = (0.787 < A)"
    unfolding andersonDarlingTest_def Let_def fold adj by (simp add: jgt_def)
  show "st_pValue (andersonDarlingTest data mu sigma alpha) = Num (max 0 (min 1 (ad_pValue_r A)))"
    unfolding andersonDarlingTest_def Let_def fold adj by (simp add: ad_pValue_r_def)
qed

lemma ad_test_unit:
  assumes "data \<noteq> []" and "sigma \<noteq> 0"
  shows "\<exists>p. st_pValue (andersonDarlingTest data mu sigma alpha) = Num p \<and> 0 \<le> p \<and> p \<le> 1"
proof -
  have "\<forall>i \<in> set [0 ..< length data]. i < length (sort data)" by simp
  from ad_fold_Num[OF this assms(2), of mu 0]
  obtain v where "fold (ad_step (sort data) mu sigma) [0 ..< length data] (Num 0) = Num v"
    by blast
  from ad_test_fields(3)[OF assms(1) this refl, of alpha] show ?thesis by simp
qed

lemma ad_test_reject:
  "st_rejectNull (andersonDarlingTest data mu sigma alpha)
     = jgt (st_statistic (andersonDarlingTest data mu sigma alpha)) (Num 0.787)"
  by (simp add: andersonDarlingTest_def Let_def)

lemma clamp_jlt:
  assumes "0 < alpha" and "alpha \<le> 1"
  shows "jlt (jmax (Num 0) (jmin (Num 1) x)) (Num alpha) = jlt x (Num alpha)"
  using assms by (cases x) (auto simp: jmax_def jmin_def)

lemma sw_test_props:
  assumes "shapiroWilkTest data alpha = Some t"
  shows "st_pValue t = NaN \<or> (\<exists>p. st_pValue t = Num p \<and> 0 \<le> p \<and> p \<le> 1)"
    and "0 < alpha \<Longrightarrow> alpha \<le> 1 \<Longrightarrow> st_rejectNull t = jlt (st_pValue t) (Num alpha)"
proof -
  obtain x where t: "st_pValue t = jmax (Num 0) (jmin (Num 1) x)" "st_rejectNull t = jlt x (Num alpha)"
    using assms by (auto simp: shapiroWilkTest_def Let_def split: if_splits)
  show "st_pValue t = NaN \<or> (\<exists>p. st_pValue t = Num p \<and> 0 \<le> p \<and> p \<le> 1)"
    unfolding t by (rule clamp_unit)
  show "st_rejectNull t = jlt (st_pValue t) (Num alpha)" if "0 < alpha" "alpha \<le> 1"
    unfolding t using clamp_jlt[OF that] by simp
qed


lemma normCDF_NaN: "normCDF NaN = NaN"
  by (simp add: normCDF_def erf_def Let_def jge_def jsub_def)

text \<open>
  On the empty sample the p-values of both tests are \<open>NaN\<close> (\<open>0.11 / sqrt 0\<close> times 0, and
  \<open>0 / 0\<close>): the results below need a non-empty sample.
\<close>

lemma jadd_NaN_right: "jadd s NaN = NaN"
  by (cases s) simp_all

lemma ks_series_NaN: "k \<le> 101 \<Longrightarrow> ks_series NaN k s = (if k \<le> 100 then NaN else s)"
proof (induction "101 - k" arbitrary: k s)
  case 0
  then show ?case by (subst ks_series.simps) simp
next
  case (Suc d)
  then have k: "k \<le> 100" and d: "d = 101 - (k + 1)" and k1: "k + 1 \<le> 101" by simp_all
  have "ks_series NaN k s = ks_series NaN (k + 1) NaN"
    using k by (subst ks_series.simps) (simp add: Let_def jadd_NaN_right)
  also have "\<dots> = NaN" using Suc.hyps(1)[OF d k1, of NaN] by simp
  finally show ?case using k by simp
qed

lemma ks_empty_sample_NaN: "st_pValue (kolmogorovSmirnovTest [] mu sigma alpha) = NaN"
  by (simp add: kolmogorovSmirnovTest_def ksAsymptoticPValue_def Let_def inf_of_def
      ks_series_NaN jmax_def jmin_def)

lemma ad_empty_sample_NaN: "st_pValue (andersonDarlingTest [] mu sigma alpha) = NaN"
  by (simp add: andersonDarlingTest_def Let_def inf_of_def jsub_def jmax_def jmin_def)

lemma sw_defined:
  assumes "3 \<le> length data" and "length data \<le> 5000"
  shows "\<exists>t. shapiroWilkTest data alpha = Some t"
  using assms by (simp add: shapiroWilkTest_def Let_def)


subsection \<open>Roundings of the worked examples\<close>

lemma fl_sw_1: "fl 1 = Num 1"
  using fl_eqI[of 52 "1" "4503599627370496"] by simp

lemma fl_sw_2: "fl 2 = Num 2"
  using fl_eqI[of 51 "2" "4503599627370496"] by simp

lemma fl_sw_3: "fl 3 = Num 3"
  using fl_eqI[of 51 "3" "6755399441055744"] by simp

lemma fl_sw_4: "fl (1 / 2) = Num (1 / 2)"
  using fl_eqI[of 53 "1 / 2" "4503599627370496"] by simp

lemma fl_sw_5: "fl (- (1 / 2)) = Num (- (1 / 2))"
  using fl_eqI[of 53 "- (1 / 2)" "- 4503599627370496"] by simp

lemma fl_sw_6: "fl (1 / 4) = Num (1 / 4)"
  using fl_eqI[of 54 "1 / 4" "4503599627370496"] by simp

lemma fl_sw_7: "fl (3 / 4) = Num (3 / 4)"
  using fl_eqI[of 53 "3 / 4" "6755399441055744"] by simp

lemma fl_sw_8: "fl (5 / 4) = Num (5 / 4)"
  using fl_eqI[of 52 "5 / 4" "5629499534213120"] by simp

lemma fl_sw_9: "fl (3 / 2) = Num (3 / 2)"
  using fl_eqI[of 52 "3 / 2" "6755399441055744"] by simp

lemma fl_sw_10: "fl (1125899906842624 / 2757880273211543) = Num (7354347395230783 / 18014398509481984)"
  using fl_eqI[of 54 "1125899906842624 / 2757880273211543" "7354347395230783"] by simp

lemma fl_sw_11: "fl (7354347395230783 / 18014398509481984) = Num (7354347395230783 / 18014398509481984)"
  using fl_eqI[of 54 "7354347395230783 / 18014398509481984" "7354347395230783"] by simp

lemma fl_sw_12: "fl (7354347395230783 / 9007199254740992) = Num (7354347395230783 / 9007199254740992)"
  using fl_eqI[of 53 "7354347395230783 / 9007199254740992" "7354347395230783"] by simp

lemma fl_sw_13: "fl (22063042185692349 / 18014398509481984) = Num (5515760546423087 / 4503599627370496)"
  using fl_eqI[of 52 "22063042185692349 / 18014398509481984" "5515760546423087"] by simp

lemma fl_sw_14: "fl (30423614405477511280430006609569 / 20282409603651670423947251286016) = Num (6755399441055745 / 4503599627370496)"
  using fl_eqI[of 52 "30423614405477511280430006609569 / 20282409603651670423947251286016" "6755399441055745"] by simp

lemma fl_sw_15: "fl (6755399441055745 / 6755399441055744) = Num (4503599627370497 / 4503599627370496)"
  using fl_eqI[of 52 "6755399441055745 / 6755399441055744" "4503599627370497"] by simp

lemma fl_sw_16: "fl (- (1 / 4503599627370496)) = Num (- (1 / 4503599627370496))"
  using fl_eqI[of 104 "- (1 / 4503599627370496)" "- 4503599627370496"] by simp

lemmas fl_sw = fl_sw_1 fl_sw_2 fl_sw_3 fl_sw_4 fl_sw_5 fl_sw_6 fl_sw_7 fl_sw_8 fl_sw_9 fl_sw_10 fl_sw_11 fl_sw_12 fl_sw_13 fl_sw_14 fl_sw_15 fl_sw_16

lemma fl_jb_1: "fl 1 = Num 1"
  using fl_eqI[of 52 "1" "4503599627370496"] by simp

lemmas fl_jb = fl_jb_1

subsection \<open>Where the unclamped and the rounded p-values leave the unit interval\<close>

lemma betaInc_NaN: "betaInc NaN a b = NaN"
  by (simp add: betaInc_def Let_def jgt_def)

lemma chi2CDF_PosInf: "chi2CDF PosInf (Num 2) = NaN"
proof -
  have "fdiv PosInf (fadd PosInf (Num 2)) = NaN" by (simp add: fdiv_def fadd_def)
  then show ?thesis by (simp add: chi2CDF_def betaInc_NaN)
qed

lemma fl_square_overflow: "fl (2 ^ 600 * 2 ^ 600) = PosInf"
proof -
  have "(2 :: real) ^ 1024 \<le> 2 ^ 1200" by (rule power_increasing) simp_all
  then have "(2 :: real) ^ 1024 \<le> \<bar>2 ^ 600 * 2 ^ 600\<bar>"
    by (simp add: power_add[symmetric] del: power_numeral)
  from fl_overflow[OF this] show ?thesis by (simp add: inf_of_def del: power_numeral)
qed

text \<open>
  The p-value of \<^verbatim>\<open>jarqueBeraTest\<close> is returned without the clamp of the three other
  tests. When the square of the skewness overflows, the statistic is \<open>Infinity\<close>,
  \<^verbatim>\<open>chi2CDF\<close> divides \<open>Infinity\<close> by \<open>Infinity\<close>, and the p-value is \<open>NaN\<close>.
\<close>

lemma jarque_bera_pValue_NaN:
  "st_statistic (jarqueBeraTest [0, 0, 0, 0, 0, 0] (2 ^ 600) 0 0.05) = PosInf
   \<and> st_pValue (jarqueBeraTest [0, 0, 0, 0, 0, 0] (2 ^ 600) 0 0.05) = NaN"
proof -
  have s: "fmul (Num (2 ^ 600)) (Num (2 ^ 600)) = PosInf"
    using fl_square_overflow by (simp add: fmul_def del: power_numeral)
  have k: "fdiv (fmul (Num 0) (Num 0)) (Num 4) = Num 0" by (simp add: fmul_def fdiv_def)
  have n: "fdiv (Num (real (length [0, 0, 0, 0, 0, 0 :: real]))) (Num 6) = Num 1"
    by (simp add: fdiv_def fl_jb)
  have jb: "fmul (Num 1) (fadd PosInf (Num 0)) = PosInf"
    by (simp add: fmul_def fadd_def inf_of_def)
  show ?thesis
    unfolding jarqueBeraTest_def Let_def s k n jb by (simp add: chi2CDF_PosInf)
qed

text \<open>
  With skewness and kurtosis 0 the statistic is 0 and the p-value is 1.
\<close>

lemma jarque_bera_zero:
  assumes "length data < 2 ^ 32"
  shows "st_pValue (jarqueBeraTest data 0 0 alpha) = Num 1"
proof -
  have "real (length data) / 6 \<le> 2 ^ 32" using assms by simp
  moreover have "fl (2 ^ 32) = Num (2 ^ 32)"
    using fl_exact[of "2 ^ 32" "2 ^ 32" 0] by simp
  ultimately have u: "jle (fl (real (length data) / 6)) (Num (2 ^ 32))"
    by (rule fl_le_double)
  have l: "jle (Num 0) (fl (real (length data) / 6))" by (rule fl_nonneg) simp
  obtain r where r: "fl (real (length data) / 6) = Num r"
    using u l by (cases "fl (real (length data) / 6)") simp_all
  have one: "fl 1 = Num 1" using fl_exact[of 1 1 0] by simp
  show ?thesis
    by (simp add: jarqueBeraTest_def Let_def fl_ops r chi2CDF_def one)
qed

lemma sqrt6_between:
  "5515760546423086 - 1 / 2 < sqrt 6 * 2 ^ 51" "sqrt 6 * 2 ^ 51 < 5515760546423086 + 1 / 2"
proof -
  have "(11031521092846171 / 2 ^ 52)\<^sup>2 < (6 :: real)" by (simp add: power_divide)
  then have "11031521092846171 / 2 ^ 52 < sqrt 6" by (rule real_less_rsqrt)
  then show "5515760546423086 - 1 / 2 < sqrt 6 * 2 ^ 51" by simp
  have "(6 :: real) < (11031521092846173 / 2 ^ 52)\<^sup>2" by (simp add: power_divide)
  then have "sqrt 6 < 11031521092846173 / 2 ^ 52" by (intro real_less_lsqrt) simp_all
  then show "sqrt 6 * 2 ^ 51 < 5515760546423086 + 1 / 2" by simp
qed

lemma fl_sqrt6: "fl (sqrt 6) = Num (2757880273211543 / 2 ^ 50)"
proof -
  have "fl (sqrt 6) = Num (real_of_int 5515760546423086 / 2 ^ 51)"
  proof (rule fl_eqI)
    show "(51 :: nat) \<le> 1074" by simp
    show "2 ^ 52 \<le> \<bar>sqrt 6\<bar> * 2 ^ 51" using sqrt6_between(1) by simp
    show "\<bar>sqrt 6\<bar> * 2 ^ 51 < 2 ^ 53" using sqrt6_between(2) by simp
    have "\<bar>sqrt 6 * 2 ^ 51 - 5515760546423086\<bar> < 1 / 2"
      using sqrt6_between by linarith
    then show "\<bar>sqrt 6 * 2 ^ 51 - real_of_int 5515760546423086\<bar> < 1 / 2"
      by simp
  qed
  then show ?thesis by simp
qed

text \<open>
  The clamp of \<^verbatim>\<open>shapiroWilkTest\<close> lets \<open>NaN\<close> through. For the sample
  \<open>[0, 0, 0, 1, 1, 1]\<close> the exact ratio \<open>numerator^2 / ssTotal\<close> is 1; the rounded one is
  \<open>1.0000000000000002\<close>, the logarithm of \<open>1 - w < 0\<close> is \<open>NaN\<close>, and so is the p-value.
\<close>

lemma shapiro_wilk_pValue_NaN:
  "\<exists>t. shapiroWilkTest [0, 0, 0, 1, 1, 1] 0.05 = Some t
      \<and> st_statistic t = Num (1 + 1 / 2 ^ 52) \<and> st_pValue t = NaN \<and> \<not> st_rejectNull t"
proof -
  have s: "sort [0, 0, 0, 1, 1, 1 :: real] = [0, 0, 0, 1, 1, 1]" by simp
  have n: "length [0, 0, 0, 1, 1, 1 :: real] = 6" and u: "[0 ..< 6 div 2] = [0, 1, 2]"
    by (simp_all add: upt_rec)
  have mean: "fdiv (fold (\<lambda>x s. fadd s (Num x)) [0, 0, 0, 1, 1, 1] (Num 0)) (Num (real 6)) = Num (1 / 2)"
    by (simp add: fl_ops fl_sw)
  have ss: "fold (\<lambda>x s. fadd s (fmul (fsub (Num x) (Num (1 / 2))) (fsub (Num x) (Num (1 / 2)))))
              [0, 0, 0, 1, 1, 1] (Num 0) = Num (3 / 2)"
    by (simp add: fl_ops fl_sw)
  have num: "fold (\<lambda>i numerator.
                     fadd numerator
                       (fmul (computeShapiroWilkCoefficient (i + 1) 6)
                          (fsub (arr_get [0, 0, 0, 1, 1, 1] (int 6 - 1 - int i))
                                (arr_get [0, 0, 0, 1, 1, 1] (int i)))))
               [0, 1, 2] (Num 0) = Num (5515760546423087 / 2 ^ 52)"
    by (simp add: computeShapiroWilkCoefficient_def fl_ops fsqrt_def fl_sqrt6 arr_get_def fl_sw)
  have w: "fdiv (fmul (Num (5515760546423087 / 2 ^ 52)) (Num (5515760546423087 / 2 ^ 52))) (Num (3 / 2))
             = Num (1 + 1 / 2 ^ 52)"
    by (simp add: fl_ops fl_sw)
  have l: "jlog (fsub (Num 1) (Num (1 + 1 / 2 ^ 52))) = NaN"
    by (simp add: fl_ops fl_sw)
  show ?thesis
    unfolding shapiroWilkTest_def Let_def s n u mean ss num w l
    by (simp add: normCDF_NaN jmax_def jmin_def)
qed


text \<open>
  Claim C1, as amended. For every non-empty sample, \<open>sigma \<noteq> 0\<close> and every \<open>alpha\<close>:
  \<^item> \<^verbatim>\<open>jarqueBeraTest\<close> and \<^verbatim>\<open>kolmogorovSmirnovTest\<close> set \<open>rejectNull\<close> to \<open>pValue < alpha\<close>;
  \<^item> the p-values of \<^verbatim>\<open>kolmogorovSmirnovTest\<close> and \<^verbatim>\<open>andersonDarlingTest\<close> are finite
    numbers in \<open>[0, 1]\<close>;
  \<^item> \<^verbatim>\<open>andersonDarlingTest\<close> sets \<open>rejectNull\<close> to \<open>statistic > 0.787\<close>, whatever \<open>alpha\<close> is;
  \<^item> the p-value of a result of \<^verbatim>\<open>shapiroWilkTest\<close> is \<open>NaN\<close> or lies in \<open>[0, 1]\<close>, and its
    \<open>rejectNull\<close> is \<open>pValue < alpha\<close> when \<open>0 < alpha \<le> 1\<close>;
  \<^item> the p-value of \<^verbatim>\<open>jarqueBeraTest\<close> is 1 when skewness and kurtosis are 0 (for a
    sample within the length of a JavaScript array).
  No range is claimed for the p-value of \<^verbatim>\<open>jarqueBeraTest\<close> in general, nor that the
  p-value of \<^verbatim>\<open>shapiroWilkTest\<close> is a number: \<open>jarque_bera_pValue_NaN\<close> and
  \<open>shapiro_wilk_pValue_NaN\<close> are inputs where they are \<open>NaN\<close>.
\<close>

theorem statistical_test_invariants:
  assumes "data \<noteq> []" and "sigma \<noteq> 0"
  shows "st_rejectNull (jarqueBeraTest data skewness kurtosis alpha)
           = jlt (st_pValue (jarqueBeraTest data skewness kurtosis alpha)) (Num alpha)
       \<and> (\<exists>p. st_pValue (kolmogorovSmirnovTest data mu sigma alpha) = Num p \<and> 0 \<le> p \<and> p \<le> 1
              \<and> st_rejectNull (kolmogorovSmirnovTest data mu sigma alpha) = (p < alpha))
       \<and> (\<exists>p. st_pValue (andersonDarlingTest data mu sigma alpha) = Num p \<and> 0 \<le> p \<and> p \<le> 1)
       \<and> st_rejectNull (andersonDarlingTest data mu sigma alpha)
           = jgt (st_statistic (andersonDarlingTest data mu sigma alpha)) (Num 0.787)
       \<and> (\<forall>t. shapiroWilkTest data alpha = Some t \<longrightarrow>
              (st_pValue t = NaN \<or> (\<exists>p. st_pValue t = Num p \<and> 0 \<le> p \<and> p \<le> 1))
              \<and> (0 < alpha \<and> alpha \<le> 1 \<longrightarrow> st_rejectNull t = jlt (st_pValue t) (Num alpha)))
       \<and> (length data < 2 ^ 32 \<longrightarrow> st_pValue (jarqueBeraTest data 0 0 alpha) = Num 1)"
proof -
  obtain p where p: "st_pValue (kolmogorovSmirnovTest data mu sigma alpha) = Num p" "0 \<le> p" "p \<le> 1"
    using ks_test_unit[OF assms] by blast
  have ks: "st_rejectNull (kolmogorovSmirnovTest data mu sigma alpha) = (p < alpha)"
    using ks_test_reject[of data mu sigma alpha] by (simp add: p(1))
  have sw: "\<forall>t. shapiroWilkTest data alpha = Some t \<longrightarrow>
              (st_pValue t = NaN \<or> (\<exists>p. st_pValue t = Num p \<and> 0 \<le> p \<and> p \<le> 1))
              \<and> (0 < alpha \<and> alpha \<le> 1 \<longrightarrow> st_rejectNull t = jlt (st_pValue t) (Num alpha))"
    using sw_test_props[of data alpha] by blast
  show ?thesis
    using jb_test_reject[of data skewness kurtosis alpha] p ks ad_test_unit[OF assms, of mu alpha]
      ad_test_reject[of data mu sigma alpha] sw jarque_bera_zero[of data alpha]
    by blast
qed

theorem statistical_test_invariants_witness:
  "st_rejectNull (jarqueBeraTest [0, 1, 3] 1 2 0.05)
           = jlt (st_pValue (jarqueBeraTest [0, 1, 3] 1 2 0.05)) (Num 0.05)
   \<and> (\<exists>p. st_pValue (kolmogorovSmirnovTest [0, 1, 3] 1 2 0.05) = Num p \<and> 0 \<le> p \<and> p \<le> 1
          \<and> st_rejectNull (kolmogorovSmirnovTest [0, 1, 3] 1 2 0.05) = (p < 0.05))
   \<and> (\<exists>p. st_pValue (andersonDarlingTest [0, 1, 3] 1 2 0.05) = Num p \<and> 0 \<le> p \<and> p \<le> 1)
   \<and> (\<exists>t. shapiroWilkTest [0, 1, 3] 0.05 = Some t
          \<and> (st_pValue t = NaN \<or> (\<exists>p. st_pValue t = Num p \<and> 0 \<le> p \<and> p \<le> 1))
          \<and> st_rejectNull t = jlt (st_pValue t) (Num 0.05))
   \<and> st_pValue (jarqueBeraTest [0, 1, 3] 0 0 0.05) = Num 1"
proof -
  have ne: "[0, 1, 3 :: real] \<noteq> []" and sg: "(2 :: real) \<noteq> 0"
    by simp_all
  have al: "(0 :: real) < 0.05 \<and> (0.05 :: real) \<le> 1" by simp
  have len: "length [0, 1, 3 :: real] < 2 ^ 32" by simp
  obtain t where t: "shapiroWilkTest [0, 1, 3] 0.05 = Some t"
    using sw_defined[of "[0, 1, 3]" "0.05"] by auto
  from statistical_test_invariants[OF ne sg, of 1 2 "0.05" 1] t al len
  show ?thesis by blast
qed

lemma erf_r_0: "erf_r 0 = 1 / 10 ^ 9"
  by (simp add: erf_r_def Let_def)

lemma normCDF_r_0: "normCDF_r 0 = 1000000001 / 2000000000"
  by (simp add: normCDF_r_def erf_r_0)

lemma exp_12_upper: "exp (1.2 :: real) \<le> 3.8416"
proof -
  have "exp (0.6 :: real) \<le> 1 + 0.6 + 0.6\<^sup>2" by (rule exp_bound) simp_all
  then have "exp (0.6 :: real) \<le> 1.96" by (simp add: power2_eq_square)
  then have "exp (0.6 :: real) ^ 2 \<le> 1.96 ^ 2" by (intro power_mono) simp_all
  moreover have "exp (1.2 :: real) = exp 0.6 ^ 2"
    using exp_of_nat_mult[of 2 "0.6 :: real"] by simp
  ultimately show ?thesis by (simp add: power2_eq_square)
qed

lemma exp_14_lower: "(4.02 :: real) \<le> exp 1.4"
proof -
  have "1 + 0.175 + 0.175\<^sup>2 / 2 \<le> exp (0.175 :: real)"
    by (rule exp_lower_Taylor_quadratic) simp
  then have "(1.1903125 :: real) \<le> exp 0.175" by (simp add: power2_eq_square)
  then have "(1.1903125 :: real) ^ 8 \<le> exp 0.175 ^ 8" by (intro power_mono) simp_all
  moreover have "exp (1.4 :: real) = exp 0.175 ^ 8"
    using exp_of_nat_mult[of 8 "0.175 :: real"] by simp
  moreover have "(4.02 :: real) \<le> 1.1903125 ^ 8" by (simp add: power_divide)
  ultimately show ?thesis by linarith
qed

lemma exp_8_upper: "exp (8 :: real) \<le> 6561"
proof -
  have "exp (1 :: real) \<le> 1 + 1 + 1\<^sup>2" by (rule exp_bound) simp_all
  then have "exp (1 :: real) \<le> 3" by simp
  then have "exp (1 :: real) ^ 8 \<le> 3 ^ 8" by (intro power_mono) simp_all
  moreover have "exp (8 :: real) = exp 1 ^ 8"
    using exp_of_nat_mult[of 8 "1 :: real"] by simp
  ultimately show ?thesis by simp
qed

lemma ad_q_ln: "- 1.4 \<le> ln ad_q" "ln ad_q \<le> - 1.2"
proof -
  have q: "0 < ad_q" "ad_q \<le> 1 / 4" "1 / 4.02 \<le> ad_q" by (simp_all add: ad_q_def)
  have "exp (- 1.4 :: real) = 1 / exp 1.4" by (simp add: exp_minus field_simps)
  also have "\<dots> \<le> 1 / 4.02" using exp_14_lower by (intro divide_left_mono) simp_all
  finally have "exp (- 1.4 :: real) \<le> ad_q" using q(3) by linarith
  then have "ln (exp (- 1.4 :: real)) \<le> ln ad_q" by (intro ln_mono) simp_all
  then show "- 1.4 \<le> ln ad_q" by simp
  have "1 / 3.8416 \<le> 1 / exp (1.2 :: real)"
    using exp_12_upper by (intro divide_left_mono) simp_all
  also have "1 / exp (1.2 :: real) = exp (- 1.2)" by (simp add: exp_minus field_simps)
  finally have "ad_q \<le> exp (- 1.2 :: real)" using q(2) by simp
  then have "ln ad_q \<le> ln (exp (- 1.2 :: real))" using q(1) by (intro ln_mono) simp_all
  then show "ln ad_q \<le> - 1.2" by simp
qed

lemma ad_single_fold: "fold (ad_step (sort [0]) 0 1) [0 ..< length [0 :: real]] (Num 0) = Num (ln ad_q)"
proof -
  have "ln (1000000001 / 2000000000 :: real) + ln (999999999 / 2000000000) = ln ad_q"
    unfolding ad_q_def by (subst ln_mult) simp_all
  then show ?thesis
    by (simp add: ad_step_def arr_get_def normCDF_Num normCDF_r_0)
qed

text \<open>
  A single observation \<open>0\<close> tested against \<open>mu = 0\<close>, \<open>sigma = 1\<close> at \<open>alpha = 0.0001\<close>: the
  adjusted statistic lies in \<open>[0.8, 1.6]\<close>, above the fixed critical value, so the test
  rejects; its p-value is at least \<open>1 / 6561\<close>, which is not below \<open>alpha\<close>.
\<close>

theorem anderson_darling_reject_counterexample:
  "st_rejectNull (andersonDarlingTest [0] 0 1 (1 / 10000))
     \<noteq> jlt (st_pValue (andersonDarlingTest [0] 0 1 (1 / 10000))) (Num (1 / 10000))"
proof -
  define A where "A = 4 * (- 1 - ln ad_q)"
  have A: "A = (- real (length [0 :: real]) - ln ad_q / real (length [0 :: real]))
                  * (1 + 0.75 / real (length [0 :: real])
                     + 2.25 / (real (length [0 :: real]) * real (length [0 :: real])))"
    by (simp add: A_def)
  have ne: "[0 :: real] \<noteq> []" by simp
  note f = ad_test_fields[OF ne ad_single_fold A]
  have lo: "0.8 \<le> A" and hi: "A \<le> 1.6" using ad_q_ln by (simp_all add: A_def)
  define E where "E = 1.2937 - 5.709 * A + 0.0186 * A * A"
  have E: "- 8 \<le> E"
  proof -
    define X where "X = 5.709 * A"
    define Y where "Y = 0.0186 * A * A"
    have "0 \<le> A * A" by simp
    then have Y: "0 \<le> Y" by (simp add: Y_def mult.assoc)
    have X: "X \<le> 9.1344" using hi by (simp add: X_def)
    have "- 8 \<le> 1.2937 - X + Y" using X Y by simp
    then show ?thesis unfolding X_def Y_def E_def .
  qed
  have e1: "exp (- 8) \<le> exp E" using E by simp
  have e2: "1 / 6561 \<le> exp (- 8 :: real)"
  proof -
    have "1 / 6561 \<le> 1 / exp (8 :: real)" using exp_8_upper by (intro divide_left_mono) simp_all
    then show ?thesis by (simp add: exp_minus field_simps)
  qed
  have "ad_pValue_r A = exp E"
    using lo unfolding E_def by (simp add: ad_pValue_r_def)
  then have p: "1 / 6561 \<le> ad_pValue_r A" using order_trans[OF e2 e1] by simp
  have "\<not> max 0 (min 1 (ad_pValue_r A)) < 1 / 10000" using p by simp
  moreover have "0.787 < A" using lo by simp
  ultimately show ?thesis unfolding f by simp
qed

end
